theory Spec2Isabelle
  imports Main "HOL-Library.Word" "HOL-Library.Multiset"
begin

unbundle bit_operations_syntax

section \<open>CoAP message codec and blockwise transfer (coap.py)\<close>

text \<open>
  The module is Python 2: a \<open>str\<close> is a sequence of bytes, \<open>ord\<close> reads a byte as an
  integer in 0..255, \<open>chr\<close> builds a byte from such an integer and raises \<open>ValueError\<close>
  outside that range, and \<open>/\<close> on integers is floor division. Python integers are
  unbounded and are modelled by \<open>int\<close>; bytes are \<open>8 word\<close>.
\<close>

type_synonym byte = "8 word"
type_synonym bytes = "byte list"

text \<open>
  Exceptions are values. \<open>StructError\<close> is \<open>struct.error\<close>. The append operations
  contain \<open>raise iot.error.NotImplemented()\<close> and \<open>raise iot.error.ResourceChanged()\<close>, but
  the module neither imports nor binds the name \<open>iot\<close>: evaluating the operand of either
  \<open>raise\<close> looks \<open>iot\<close> up and raises \<open>NameError\<close>, so no other exception can leave
  those statements.
\<close>

datatype error =
    TypeError
  | ValueError
  | StructError
  | IndexError
  | AttributeError
  | NameError

subsection \<open>Python primitives used by the module\<close>

definition py_ord :: "byte \<Rightarrow> int" where
  "py_ord b = uint b"

definition py_chr :: "int \<Rightarrow> error + byte" where
  "py_chr i = (if 0 \<le> i \<and> i < 256 then Inr (word_of_int i) else Inl ValueError)"

text \<open>\<open>struct.pack\<close> with the formats \<open>!B\<close>, \<open>!H\<close> and \<open>!L\<close>: big-endian, range-checked.\<close>

definition pack_B :: "int \<Rightarrow> error + bytes" where
  "pack_B v = (if 0 \<le> v \<and> v < 256 then Inr [word_of_int v] else Inl StructError)"

definition pack_H :: "int \<Rightarrow> error + bytes" where
  "pack_H v =
     (if 0 \<le> v \<and> v < 65536
      then Inr [word_of_int (v div 256), word_of_int (v mod 256)]
      else Inl StructError)"

definition pack_L :: "int \<Rightarrow> error + bytes" where
  "pack_L v =
     (if 0 \<le> v \<and> v < 4294967296
      then Inr [word_of_int (v div 16777216),
                word_of_int (v div 65536 mod 256),
                word_of_int (v div 256 mod 256),
                word_of_int (v mod 256)]
      else Inl StructError)"

text \<open>\<open>struct.unpack('!H', s)\<close>: exactly two bytes, else \<open>struct.error\<close>.\<close>

definition unpack_H :: "bytes \<Rightarrow> error + int" where
  "unpack_H s = (case s of [b0, b1] \<Rightarrow> Inr (py_ord b0 * 256 + py_ord b1) | _ \<Rightarrow> Inl StructError)"

text \<open>\<open>s.lstrip(chr(0))\<close>.\<close>

definition lstrip0 :: "bytes \<Rightarrow> bytes" where
  "lstrip0 s = dropWhile (\<lambda>b. b = 0) s"

text \<open>\<open>int.bit_length\<close>: the number of bits of the absolute value.\<close>

fun bit_length_nat :: "nat \<Rightarrow> nat" where
  "bit_length_nat n = (if n = 0 then 0 else Suc (bit_length_nat (n div 2)))"

declare bit_length_nat.simps [simp del]

definition bit_length :: "int \<Rightarrow> int" where
  "bit_length v = int (bit_length_nat (nat \<bar>v\<bar>))"

subsection \<open>Variable-length field codec\<close>

definition readExtendedFieldValue :: "int \<Rightarrow> bytes \<Rightarrow> error + (int \<times> bytes)" where
  "readExtendedFieldValue v rawdata =
     (if 0 \<le> v \<and> v < 13 then Inr (v, rawdata)
      else if v = 13 then
        (case rawdata of
           [] \<Rightarrow> Inl IndexError
         | b # rest \<Rightarrow> Inr (py_ord b + 13, rest))
      else if v = 14 then
        (case unpack_H (take 2 rawdata) of
           Inl e \<Rightarrow> Inl e
         | Inr n \<Rightarrow> Inr (n + 269, drop 2 rawdata))
      else Inl ValueError)"

definition writeExtendedFieldValue :: "int \<Rightarrow> error + (int \<times> bytes)" where
  "writeExtendedFieldValue v =
     (if 0 \<le> v \<and> v < 13 then Inr (v, [])
      else if 13 \<le> v \<and> v < 269 then
        (case pack_B (v - 13) of Inl e \<Rightarrow> Inl e | Inr s \<Rightarrow> Inr (13, s))
      else if 269 \<le> v \<and> v < 65804 then
        (case pack_H (v - 269) of Inl e \<Rightarrow> Inl e | Inr s \<Rightarrow> Inr (14, s))
      else Inl ValueError)"

subsection \<open>Option value codecs\<close>

text \<open>
  The three option classes. Every option carries its \<open>number\<close>; a \<open>StringOption\<close> holds
  bytes, a \<open>UintOption\<close> an integer, a \<open>BlockOption\<close> the tuple
  \<open>(block_number, more, size_exponent)\<close>.
\<close>

datatype opt_value =
    StrVal bytes
  | IntVal int
  | BlockVal int bool int

datatype coap_option =
    StringOption int bytes
  | UintOption int int
  | BlockOption int int bool int

fun number :: "coap_option \<Rightarrow> int" where
  "number (StringOption n s) = n"
| "number (UintOption n v) = n"
| "number (BlockOption n bn m sz) = n"

fun opt_value_of :: "coap_option \<Rightarrow> opt_value" where
  "opt_value_of (StringOption n s) = StrVal s"
| "opt_value_of (UintOption n v) = IntVal v"
| "opt_value_of (BlockOption n bn m sz) = BlockVal bn m sz"

text \<open>\<open>UintOption.decode\<close> and \<open>BlockOption.decode\<close> share the big-endian loop.\<close>

fun be_loop :: "int \<Rightarrow> bytes \<Rightarrow> int" where
  "be_loop v [] = v"
| "be_loop v (b # rest) = be_loop (v * 256 + py_ord b) rest"

definition UintOption_encode :: "int \<Rightarrow> error + bytes" where
  "UintOption_encode v = (case pack_L v of Inl e \<Rightarrow> Inl e | Inr s \<Rightarrow> Inr (lstrip0 s))"

definition UintOption_decode :: "bytes \<Rightarrow> int" where
  "UintOption_decode rawdata = be_loop 0 rawdata"

definition UintOption_length :: "int \<Rightarrow> int" where
  "UintOption_length v = (if v > 0 then (bit_length v - 1) div 8 + 1 else 0)"

text \<open>In \<open>BlockOption.encode\<close> the product \<open>more * 0x08\<close> reads \<open>True\<close> as 1.\<close>

definition BlockOption_as_integer :: "int \<Rightarrow> bool \<Rightarrow> int \<Rightarrow> int" where
  "BlockOption_as_integer bn m sz = push_bit 4 bn + (if m then 1 else 0) * 8 + sz"

definition BlockOption_encode :: "int \<Rightarrow> bool \<Rightarrow> int \<Rightarrow> error + bytes" where
  "BlockOption_encode bn m sz =
     (case pack_L (BlockOption_as_integer bn m sz) of
        Inl e \<Rightarrow> Inl e
      | Inr s \<Rightarrow> Inr (lstrip0 s))"

definition BlockOption_decode :: "bytes \<Rightarrow> int \<times> bool \<times> int" where
  "BlockOption_decode rawdata =
     (let as_integer = be_loop 0 rawdata
      in (drop_bit 4 as_integer, as_integer AND 8 \<noteq> 0, as_integer AND 7))"

definition BlockOption_length :: "int \<Rightarrow> bool \<Rightarrow> int \<Rightarrow> int" where
  "BlockOption_length bn m sz = (bit_length bn + 3) div 8 + 1"

fun option_encode :: "coap_option \<Rightarrow> error + bytes" where
  "option_encode (StringOption n s) = Inr s"
| "option_encode (UintOption n v) = UintOption_encode v"
| "option_encode (BlockOption n bn m sz) = BlockOption_encode bn m sz"

fun option_length :: "coap_option \<Rightarrow> int" where
  "option_length (StringOption n s) = int (length s)"
| "option_length (UintOption n v) = UintOption_length v"
| "option_length (BlockOption n bn m sz) = BlockOption_length bn m sz"

text \<open>
  The table \<open>option_formats\<close>, with \<open>StringOption\<close> as the default of the lookup in
  \<open>Options.decode\<close>: the class for a number, constructed and then decoded from bytes.
\<close>

datatype option_format = StringFormat | UintFormat | BlockFormat

definition option_formats :: "int \<Rightarrow> option_format" where
  "option_formats n =
     (if n = 6 \<or> n = 7 \<or> n = 12 \<or> n = 14 \<or> n = 16 \<or> n = 28 then UintFormat
      else if n = 23 \<or> n = 27 then BlockFormat
      else StringFormat)"

definition decode_option :: "int \<Rightarrow> bytes \<Rightarrow> coap_option" where
  "decode_option n rawdata =
     (case option_formats n of
        StringFormat \<Rightarrow> StringOption n rawdata
      | UintFormat \<Rightarrow> UintOption n (UintOption_decode rawdata)
      | BlockFormat \<Rightarrow>
          (case BlockOption_decode rawdata of (bn, m, sz) \<Rightarrow> BlockOption n bn m sz))"

subsection \<open>Options container\<close>

text \<open>
  \<open>Options._options\<close> is a dict from option number to the list of options added under
  it. It is an association list with one entry per key; the order of the entries stands
  for the dict's iteration order, which \<open>optionList\<close> sorts away.
\<close>

type_synonym options = "(int \<times> coap_option list) list"

definition Options_init :: options where
  "Options_init = []"

fun addOption :: "options \<Rightarrow> coap_option \<Rightarrow> options" where
  "addOption [] x = [(number x, [x])]"
| "addOption ((k, vs) # rest) x =
     (if k = number x then (k, vs @ [x]) # rest else (k, vs) # addOption rest x)"

definition deleteOption :: "options \<Rightarrow> int \<Rightarrow> options" where
  "deleteOption os n = filter (\<lambda>kv. fst kv \<noteq> n) os"

definition getOption :: "options \<Rightarrow> int \<Rightarrow> coap_option list option" where
  "getOption os n = map_of os n"

text \<open>
  \<open>optionList\<close>: the lists sorted (stably) by the number of their first element, then
  chained. \<open>x[0]\<close> on an empty list raises \<open>IndexError\<close>.
\<close>

definition optionList :: "options \<Rightarrow> error + coap_option list" where
  "optionList os =
     (let vals = map snd os
      in if [] \<in> set vals then Inl IndexError
         else Inr (concat (sort_key (\<lambda>x. number (hd x)) vals)))"

text \<open>One pass of the loop in \<open>Options.encode\<close>: the bytes appended for one option.\<close>

definition encode_one :: "int \<Rightarrow> coap_option \<Rightarrow> error + bytes" where
  "encode_one current_opt_num x =
     (case writeExtendedFieldValue (number x - current_opt_num) of
        Inl e \<Rightarrow> Inl e
      | Inr (delta, extended_delta) \<Rightarrow>
     (case writeExtendedFieldValue (option_length x) of
        Inl e \<Rightarrow> Inl e
      | Inr (len, extended_length) \<Rightarrow>
     (case py_chr (push_bit 4 (delta AND 15) + (len AND 15)) of
        Inl e \<Rightarrow> Inl e
      | Inr hdr \<Rightarrow>
     (case option_encode x of
        Inl e \<Rightarrow> Inl e
      | Inr v \<Rightarrow> Inr (hdr # extended_delta @ extended_length @ v)))))"

fun encode_loop :: "int \<Rightarrow> coap_option list \<Rightarrow> error + bytes" where
  "encode_loop current_opt_num [] = Inr []"
| "encode_loop current_opt_num (x # xs) =
     (case encode_one current_opt_num x of
        Inl e \<Rightarrow> Inl e
      | Inr s \<Rightarrow>
     (case encode_loop (number x) xs of
        Inl e \<Rightarrow> Inl e
      | Inr rest \<Rightarrow> Inr (s @ rest)))"

definition Options_encode :: "options \<Rightarrow> error + bytes" where
  "Options_encode os =
     (case optionList os of
        Inl e \<Rightarrow> Inl e
      | Inr option_list \<Rightarrow> encode_loop 0 option_list)"

text \<open>
  \<open>Options.decode\<close>: the loop over the raw data, with the running option number and the
  container as state. It returns the container and the payload. A slice \<open>rawdata[:length]\<close>
  past the end is the bytes that are there.
\<close>

function Options_decode_loop :: "int \<Rightarrow> options \<Rightarrow> bytes \<Rightarrow> error + (options \<times> bytes)" where
  "Options_decode_loop option_number os [] = Inr (os, [])"
| "Options_decode_loop option_number os (b # rawdata) =
     (if py_ord b = 255 then Inr (os, rawdata)
      else
        (let dllen = py_ord b;
             delta = drop_bit 4 (dllen AND 240);
             len = dllen AND 15
         in case readExtendedFieldValue delta rawdata of
              Inl e \<Rightarrow> Inl e
            | Inr (delta', rawdata1) \<Rightarrow>
           (case readExtendedFieldValue len rawdata1 of
              Inl e \<Rightarrow> Inl e
            | Inr (len', rawdata2) \<Rightarrow>
                Options_decode_loop (option_number + delta')
                  (addOption os (decode_option (option_number + delta') (take (nat len') rawdata2)))
                  (drop (nat len') rawdata2))))"
  by pat_completeness auto
termination
proof (relation "measure (\<lambda>(n, os, rawdata). length rawdata)")
  show "wf (measure (\<lambda>(n, os, rawdata). length rawdata))"
    by simp
next
  fix option_number :: int and os :: options and b :: byte and rawdata :: bytes
    and dllen delta len :: int and x2 :: "int \<times> bytes" and delta' :: int and rawdata1 :: bytes
    and x2a :: "int \<times> bytes" and len' :: int and rawdata2 :: bytes
  have shorter: "length r' \<le> length r" if "readExtendedFieldValue v r = Inr (n, r')"
    for v n and r r' :: bytes
    using that
    by (auto simp: readExtendedFieldValue_def split: if_splits list.splits sum.splits)
  assume "readExtendedFieldValue delta rawdata = Inr x2" and "(delta', rawdata1) = x2"
    and "readExtendedFieldValue len rawdata1 = Inr x2a" and "(len', rawdata2) = x2a"
  then have "length rawdata1 \<le> length rawdata" and "length rawdata2 \<le> length rawdata1"
    using shorter by metis+
  then show "((option_number + delta',
               addOption os (decode_option (option_number + delta') (take (nat len') rawdata2)),
               drop (nat len') rawdata2),
              option_number, os, b # rawdata)
             \<in> measure (\<lambda>(n, os, rawdata). length rawdata)"
    by simp
qed

definition Options_decode :: "bytes \<Rightarrow> error + (options \<times> bytes)" where
  "Options_decode rawdata = Options_decode_loop 0 Options_init rawdata"

subsection \<open>Message\<close>

text \<open>
  The fields of a \<open>Message\<close>. \<open>mtype\<close> and \<open>mid\<close> may be \<open>None\<close>. The fields
  \<open>response_type\<close>, \<open>remote\<close>, \<open>prepath\<close>, \<open>postpath\<close> and \<open>protocol\<close> belong to the
  transport layer and are opaque here.
\<close>

record message =
  version :: int
  mtype :: "int option"
  mid :: "int option"
  code :: int
  token :: bytes
  payload :: bytes
  opt :: options
  response_type :: "string option"
  remote :: "string option"
  prepath :: "string option"
  postpath :: "string option"
  protocol :: "string option"

definition Message_init :: "int option \<Rightarrow> int option \<Rightarrow> int \<Rightarrow> bytes \<Rightarrow> bytes \<Rightarrow> message" where
  "Message_init mtype' mid' code' payload' token' =
     \<lparr>version = 1, mtype = mtype', mid = mid', code = code', token = token',
      payload = payload', opt = Options_init, response_type = None, remote = None,
      prepath = None, postpath = None, protocol = None\<rparr>"

definition isRequest :: "int \<Rightarrow> bool" where
  "isRequest c = (c \<ge> 1 \<and> c < 32)"

definition isResponse :: "int \<Rightarrow> bool" where
  "isResponse c = (c \<ge> 64 \<and> c < 192)"

definition DEFAULT_BLOCK_SIZE_EXP :: int where
  "DEFAULT_BLOCK_SIZE_EXP = 2"

definition ETAG :: int where "ETAG = 4"
definition OBSERVE :: int where "OBSERVE = 6"
definition BLOCK2 :: int where "BLOCK2 = 23"
definition BLOCK1 :: int where "BLOCK1 = 27"

text \<open>
  The getters \<open>block1\<close>, \<open>block2\<close> and \<open>etag\<close> of \<open>Options\<close>: the value of the first
  option stored under the number, or \<open>None\<close>.
\<close>

definition first_value :: "options \<Rightarrow> int \<Rightarrow> error + opt_value option" where
  "first_value os n =
     (case getOption os n of
        None \<Rightarrow> Inr None
      | Some [] \<Rightarrow> Inl IndexError
      | Some (x # xs) \<Rightarrow> Inr (Some (opt_value_of x)))"

definition getBlock2 :: "options \<Rightarrow> error + opt_value option" where
  "getBlock2 os = first_value os BLOCK2"

definition getBlock1 :: "options \<Rightarrow> error + opt_value option" where
  "getBlock1 os = first_value os BLOCK1"

definition getETag :: "options \<Rightarrow> error + opt_value option" where
  "getETag os = first_value os ETAG"

definition setBlock2 :: "options \<Rightarrow> int \<times> bool \<times> int \<Rightarrow> options" where
  "setBlock2 os block_tuple =
     (case block_tuple of (bn, m, sz) \<Rightarrow> addOption (deleteOption os BLOCK2) (BlockOption BLOCK2 bn m sz))"

definition setBlock1 :: "options \<Rightarrow> int \<times> bool \<times> int \<Rightarrow> options" where
  "setBlock1 os block_tuple =
     (case block_tuple of (bn, m, sz) \<Rightarrow> addOption (deleteOption os BLOCK1) (BlockOption BLOCK1 bn m sz))"

text \<open>
  \<open>Message.decode\<close>. \<open>struct.unpack('!BBH', rawdata[:4])\<close> needs four bytes.
\<close>

definition Message_decode :: "bytes \<Rightarrow> string option \<Rightarrow> string option \<Rightarrow> error + message" where
  "Message_decode rawdata remote' protocol' =
     (case take 4 rawdata of
        [b0, b1, b2, b3] \<Rightarrow>
          (let vttkl = py_ord b0;
               code' = py_ord b1;
               mid' = py_ord b2 * 256 + py_ord b3;
               version' = drop_bit 6 (vttkl AND 192)
           in if version' \<noteq> 1 then Inl ValueError
              else
                (let mtype' = drop_bit 4 (vttkl AND 48);
                     token_length = vttkl AND 15;
                     msg = Message_init (Some mtype') (Some mid') code' [] []
                 in case Options_decode (drop (4 + nat token_length) rawdata) of
                      Inl e \<Rightarrow> Inl e
                    | Inr (os, payload') \<Rightarrow>
                        Inr (msg\<lparr>token := take (nat token_length) (drop 4 rawdata),
                                 payload := payload', opt := os,
                                 remote := remote', protocol := protocol'\<rparr>)))
      | _ \<Rightarrow> Inl StructError)"

text \<open>
  \<open>Message.encode\<close>. \<open>struct.pack('!BH', code, mid)\<close> checks both ranges.
\<close>

definition pack_BH :: "int \<Rightarrow> int \<Rightarrow> error + bytes" where
  "pack_BH c m =
     (case pack_B c of
        Inl e \<Rightarrow> Inl e
      | Inr s1 \<Rightarrow> (case pack_H m of Inl e \<Rightarrow> Inl e | Inr s2 \<Rightarrow> Inr (s1 @ s2)))"

definition Message_encode :: "message \<Rightarrow> error + bytes" where
  "Message_encode self =
     (case (mtype self, mid self) of
        (Some mtype', Some mid') \<Rightarrow>
          (case py_chr (push_bit 6 (version self) + push_bit 4 (mtype' AND 3)
                        + (int (length (token self)) AND 15)) of
             Inl e \<Rightarrow> Inl e
           | Inr b0 \<Rightarrow>
          (case pack_BH (code self) mid' of
             Inl e \<Rightarrow> Inl e
           | Inr s \<Rightarrow>
          (case Options_encode (opt self) of
             Inl e \<Rightarrow> Inl e
           | Inr optdata \<Rightarrow>
               Inr (b0 # s @ token self @ optdata
                    @ (if length (payload self) > 0 then 255 # payload self else [])))))
      | _ \<Rightarrow> Inl TypeError)"

subsection \<open>Blockwise transfer\<close>

text \<open>
  The test \<open>block_number * (2 ** (size_exponent + 4)) == len(payload)\<close>. With a negative
  exponent Python computes \<open>2 ** e\<close> and the product as floats; the comparison is then
  written over the integers, which agrees with the floats only while the block number is
  below \<open>2 ^ 53\<close>. Every statement below is about exponents that are not negative.
\<close>

definition block_starts_at :: "int \<Rightarrow> int \<Rightarrow> nat \<Rightarrow> bool" where
  "block_starts_at bn sz n =
     (if 0 \<le> sz + 4 then bn * 2 ^ nat (sz + 4) = int n
      else bn = int n * 2 ^ nat (- (sz + 4)))"

text \<open>
  The append operations change \<open>self\<close> in place and may raise: the result is \<open>self\<close> after
  the call, and the exception if one was raised. Reading \<open>block_number\<close> from a value that
  is not a block tuple (or from \<open>None\<close>) raises \<open>AttributeError\<close>. Both \<open>raise\<close> statements
  that name \<open>iot.error\<close> end in \<open>NameError\<close>, before any field of \<open>self\<close> is assigned.
\<close>

definition appendRequestBlock :: "message \<Rightarrow> message \<Rightarrow> message \<times> error option" where
  "appendRequestBlock self next_block =
     (if isRequest (code self) then
        (case getBlock1 (opt next_block) of
           Inl e \<Rightarrow> (self, Some e)
         | Inr (Some (BlockVal bn m sz)) \<Rightarrow>
             if block_starts_at bn sz (length (payload self)) then
               (self\<lparr>payload := payload self @ payload next_block,
                      opt := setBlock1 (opt self) (bn, m, sz),
                      token := token next_block,
                      mid := mid next_block,
                      response_type := None\<rparr>, None)
             else (self, Some NameError)
         | Inr _ \<Rightarrow> (self, Some AttributeError))
      else (self, Some ValueError))"

definition appendResponseBlock :: "message \<Rightarrow> message \<Rightarrow> message \<times> error option" where
  "appendResponseBlock self next_block =
     (if isResponse (code self) then
        (case getBlock2 (opt next_block) of
           Inl e \<Rightarrow> (self, Some e)
         | Inr (Some (BlockVal bn m sz)) \<Rightarrow>
             if \<not> block_starts_at bn sz (length (payload self)) then (self, Some NameError)
             else
               (case getETag (opt next_block) of
                  Inl e \<Rightarrow> (self, Some e)
                | Inr next_etag \<Rightarrow>
               (case getETag (opt self) of
                  Inl e \<Rightarrow> (self, Some e)
                | Inr self_etag \<Rightarrow>
                    if next_etag \<noteq> self_etag then (self, Some NameError)
                    else
                      (self\<lparr>payload := payload self @ payload next_block,
                             opt := setBlock2 (opt self) (bn, m, sz),
                             token := token next_block,
                             mid := mid next_block\<rparr>, None)))
         | Inr _ \<Rightarrow> (self, Some AttributeError))
      else (self, Some ValueError))"

definition generateNextBlock2Request :: "message \<Rightarrow> message \<Rightarrow> error + message" where
  "generateNextBlock2Request self response =
     (let request = self\<lparr>payload := [], mid := None\<rparr>
      in case getBlock2 (opt response) of
           Inl e \<Rightarrow> Inl e
         | Inr (Some (BlockVal bn m sz)) \<Rightarrow>
             (let block_tuple =
                    (if bn = 0 \<and> sz > DEFAULT_BLOCK_SIZE_EXP
                     then (2 ^ nat (sz - DEFAULT_BLOCK_SIZE_EXP), False, DEFAULT_BLOCK_SIZE_EXP)
                     else (bn + 1, False, sz))
              in Inr (request\<lparr>opt := deleteOption
                                       (deleteOption (setBlock2 (opt request) block_tuple) BLOCK1)
                                       OBSERVE\<rparr>))
         | Inr _ \<Rightarrow> Inl AttributeError)"

subsection \<open>The canonical encoding of an unsigned integer, as the specification words it\<close>

text \<open>
  The value of a byte string read big-endian, and the canonical minimal encoding of a
  value: the bytes denote the value, no leading zero byte is present, and zero is the
  empty string.
\<close>

fun big_endian :: "bytes \<Rightarrow> int" where
  "big_endian [] = 0"
| "big_endian (b # s) = uint b * 256 ^ length s + big_endian s"

definition minimal_big_endian :: "bytes \<Rightarrow> int \<Rightarrow> bool" where
  "minimal_big_endian s v = (big_endian s = v \<and> (s = [] \<or> hd s \<noteq> 0) \<and> (v = 0 \<longrightarrow> s = []))"

subsection \<open>The invariant of the options container\<close>

text \<open>
  The invariant of \<open>Options._options\<close>: one entry per key, no empty list, and every option
  stored under its own number.
\<close>

definition options_wf :: "options \<Rightarrow> bool" where
  "options_wf os \<longleftrightarrow>
     distinct (map fst os)
     \<and> (\<forall>kv \<in> set os. snd kv \<noteq> [] \<and> (\<forall>x \<in> set (snd kv). number x = fst kv))"

text \<open>The options stored under a number, none when the key is absent.\<close>

definition stored :: "options \<Rightarrow> int \<Rightarrow> coap_option list" where
  "stored os n = (case getOption os n of None \<Rightarrow> [] | Some vs \<Rightarrow> vs)"

subsection \<open>What encoding the options emits, as the specification words it\<close>

text \<open>
  For one option at a given delta: one byte whose high nibble is the nibble of the delta
  and whose low nibble is the nibble of the length, then the extension bytes of the delta,
  the extension bytes of the length, and the value bytes. For a sequence of options: a
  running number that starts at the given value; each option is emitted at the delta
  \<open>number - running_number\<close>, which is not negative, and its number becomes the running
  number.
\<close>

definition emitted_option :: "int \<Rightarrow> coap_option \<Rightarrow> bytes \<Rightarrow> bool" where
  "emitted_option delta x piece \<longleftrightarrow>
     (\<exists>dn ed ln el v.
        writeExtendedFieldValue delta = Inr (dn, ed)
        \<and> writeExtendedFieldValue (option_length x) = Inr (ln, el)
        \<and> option_encode x = Inr v
        \<and> piece = word_of_int (16 * dn + ln) # ed @ el @ v)"

fun emitted_options :: "int \<Rightarrow> coap_option list \<Rightarrow> bytes list \<Rightarrow> bool" where
  "emitted_options running_number [] pieces = (pieces = [])"
| "emitted_options running_number (x # xs) pieces =
     (case pieces of
        [] \<Rightarrow> False
      | piece # rest \<Rightarrow>
          0 \<le> number x - running_number
          \<and> emitted_option (number x - running_number) x piece
          \<and> emitted_options (number x) xs rest)"

section \<open>Bytes and integers\<close>

lemma py_ord_word_of_int: "0 \<le> v \<Longrightarrow> v < 256 \<Longrightarrow> py_ord (word_of_int v) = v"
  by (simp add: py_ord_def uint_word_of_int take_bit_int_eq_self)

lemma uint_byte_of_int: "0 \<le> v \<Longrightarrow> v < 256 \<Longrightarrow> uint (word_of_int v :: byte) = v"
  by (simp add: uint_word_of_int take_bit_int_eq_self)

lemma py_ord_range: "0 \<le> py_ord b \<and> py_ord b < 256"
proof -
  have "uint b < 2 ^ LENGTH(8)" by (rule uint_lt2p)
  then show ?thesis by (simp add: py_ord_def)
qed

lemma be_loop_big_endian: "be_loop acc s = acc * 256 ^ length s + big_endian s"
  by (induction s arbitrary: acc) (simp_all add: py_ord_def algebra_simps)

lemma big_endian_lstrip0: "big_endian (lstrip0 s) = big_endian s"
  by (induction s) (simp_all add: lstrip0_def)

lemma lstrip0_no_leading_zero: "lstrip0 s = [] \<or> hd (lstrip0 s) \<noteq> 0"
  unfolding lstrip0_def using hd_dropWhile [of "\<lambda>b. b = 0" s] by blast

lemma big_endian_nonneg: "0 \<le> big_endian s"
  by (induction s) simp_all

lemma big_endian_pos:
  assumes "s \<noteq> []" and "hd s \<noteq> 0"
  shows "0 < big_endian s"
proof (cases s)
  case Nil
  with assms show ?thesis by simp
next
  case (Cons b r)
  with assms have "b \<noteq> 0" by simp
  then have "uint b \<noteq> 0" by (simp add: uint_0_iff)
  moreover have "0 \<le> uint b" by simp
  ultimately have "0 < uint b" by linarith
  then have "0 < uint b * 256 ^ length r" by simp
  with big_endian_nonneg [of r] show ?thesis using Cons by simp
qed

lemma split_bytes4:
  fixes v :: int
  shows "v div 16777216 * 16777216 + v div 65536 mod 256 * 65536
          + v div 256 mod 256 * 256 + v mod 256 = v"
proof -
  define d1 m0 d2 m1 d3 m2 where "d1 = v div 256" and "m0 = v mod 256"
    and "d2 = v div 65536" and "m1 = d1 mod 256"
    and "d3 = v div 16777216" and "m2 = d2 mod 256"
  have "v div 256 div 256 = v div (256 * 256)"
    by (rule zdiv_zmult2_eq [symmetric]) simp
  then have e2: "d1 div 256 = d2" by (simp add: d1_def d2_def)
  have "v div 65536 div 256 = v div (65536 * 256)"
    by (rule zdiv_zmult2_eq [symmetric]) simp
  then have e3: "d2 div 256 = d3" by (simp add: d2_def d3_def)
  have f0: "d1 * 256 + m0 = v" by (simp add: d1_def m0_def)
  have "d1 div 256 * 256 + d1 mod 256 = d1" by (rule div_mult_mod_eq)
  then have f1: "d2 * 256 + m1 = d1" by (simp only: e2 m1_def [symmetric])
  have "d2 div 256 * 256 + d2 mod 256 = d2" by (rule div_mult_mod_eq)
  then have f2: "d3 * 256 + m2 = d2" by (simp only: e3 m2_def [symmetric])
  have "d3 * 16777216 + m2 * 65536 + m1 * 256 + m0 = v"
    using f0 f1 f2 by linarith
  then show ?thesis
    by (simp only: m1_def m2_def m0_def d1_def d2_def d3_def)
qed

lemma big_endian4:
  "big_endian [a, b, c, d] = uint a * 16777216 + uint b * 65536 + uint c * 256 + uint d"
  by simp

lemma pack_L_bytes:
  assumes "0 \<le> v" and "v < 4294967296"
  shows "\<exists>s. pack_L v = Inr s \<and> length s = 4 \<and> big_endian s = v"
proof -
  define s :: bytes where "s = [word_of_int (v div 16777216), word_of_int (v div 65536 mod 256),
          word_of_int (v div 256 mod 256), word_of_int (v mod 256)]"
  have "v div 16777216 < 256"
    using assms by (simp add: div_less_iff_less_mult)
  moreover have "0 \<le> v div 16777216"
    using assms by (simp add: pos_imp_zdiv_nonneg_iff)
  ultimately have b3: "uint (word_of_int (v div 16777216) :: byte) = v div 16777216"
    by (intro uint_byte_of_int)
  have b2: "uint (word_of_int (v div 65536 mod 256) :: byte) = v div 65536 mod 256"
    by (intro uint_byte_of_int) simp_all
  have b1: "uint (word_of_int (v div 256 mod 256) :: byte) = v div 256 mod 256"
    by (intro uint_byte_of_int) simp_all
  have b0: "uint (word_of_int (v mod 256) :: byte) = v mod 256"
    by (intro uint_byte_of_int) simp_all
  have be: "big_endian s = v"
    unfolding s_def by (simp only: big_endian4 b3 b2 b1 b0 split_bytes4)
  have pk: "pack_L v = Inr s"
    using assms by (simp add: pack_L_def s_def)
  have "length s = 4"
    by (simp add: s_def)
  with be pk show ?thesis by blast
qed

lemma lstrip0_minimal:
  assumes "big_endian s = v"
  shows "minimal_big_endian (lstrip0 s) v"
proof -
  have val: "big_endian (lstrip0 s) = v"
    using assms by (simp add: big_endian_lstrip0)
  have "v = 0 \<longrightarrow> lstrip0 s = []"
  proof
    assume "v = 0"
    show "lstrip0 s = []"
    proof (rule ccontr)
      assume ne: "lstrip0 s \<noteq> []"
      with lstrip0_no_leading_zero [of s] have "hd (lstrip0 s) \<noteq> 0" by blast
      with ne have "0 < big_endian (lstrip0 s)" by (rule big_endian_pos)
      with \<open>v = 0\<close> val show False by simp
    qed
  qed
  with val lstrip0_no_leading_zero [of s] show ?thesis
    by (simp add: minimal_big_endian_def)
qed

section \<open>The variable-length field codec\<close>

lemma write_read_field:
  assumes "0 \<le> v" and "v < 65804"
  shows "\<exists>n ext. writeExtendedFieldValue v = Inr (n, ext)
           \<and> readExtendedFieldValue n (ext @ rest) = Inr (v, rest)"
proof -
  consider "v < 13" | "13 \<le> v" "v < 269" | "269 \<le> v"
    by linarith
  then show ?thesis
  proof cases
    case 1
    with assms show ?thesis
      by (simp add: writeExtendedFieldValue_def readExtendedFieldValue_def)
  next
    case 2
    define w where "w = v - 13"
    have v: "v = w + 13" by (simp add: w_def)
    have w: "0 \<le> w" "w < 256" using 2 by (simp_all add: w_def)
    have wr: "writeExtendedFieldValue v = Inr (13, [word_of_int w])"
      using 2 w by (simp add: writeExtendedFieldValue_def pack_B_def w_def [symmetric])
    have "py_ord (word_of_int w) = w"
      using w by (rule py_ord_word_of_int)
    then have rd: "readExtendedFieldValue 13 ([word_of_int w] @ rest) = Inr (v, rest)"
      by (simp add: readExtendedFieldValue_def v)
    from wr rd show ?thesis by blast
  next
    case 3
    define w where "w = v - 269"
    define hi lo :: byte where "hi = word_of_int (w div 256)" and "lo = word_of_int (w mod 256)"
    have v: "v = w + 269" by (simp add: w_def)
    have w: "0 \<le> w" "w < 65536"
      using 3 assms by (simp_all add: w_def)
    have wr: "writeExtendedFieldValue v = Inr (14, [hi, lo])"
      using 3 assms w
      by (simp add: writeExtendedFieldValue_def pack_H_def w_def [symmetric] hi_def lo_def)
    have "w div 256 < 256"
      using w by (simp add: div_less_iff_less_mult)
    moreover have "0 \<le> w div 256"
      using w by (simp add: pos_imp_zdiv_nonneg_iff)
    ultimately have "py_ord hi = w div 256"
      unfolding hi_def by (intro py_ord_word_of_int)
    moreover have "py_ord lo = w mod 256"
      unfolding lo_def by (intro py_ord_word_of_int) simp_all
    ultimately have "py_ord hi * 256 + py_ord lo = w"
      by (simp only: div_mult_mod_eq)
    then have "unpack_H [hi, lo] = Inr w"
      by (simp add: unpack_H_def)
    then have rd: "readExtendedFieldValue 14 ([hi, lo] @ rest) = Inr (v, rest)"
      by (simp add: readExtendedFieldValue_def v)
    from wr rd show ?thesis by blast
  qed
qed

text \<open>
  C6, as the claim states it, fails at 65803: the two extension bytes hold
  \<open>65803 - 269 = 65534\<close>, that is \<open>0xFF 0xFE\<close>, not \<open>0xFF 0xFF\<close>.
\<close>

theorem writeExtendedFieldValue_65803_counterexample:
  "writeExtendedFieldValue 65803 \<noteq> Inr (14, [0xFF, 0xFF])"
  by (simp add: writeExtendedFieldValue_def pack_H_def)

text \<open>
  C6 (amended): the threshold table of the field codec, with \<open>0xFF 0xFE\<close> as the extension
  of 65803; every value from 65804 on is refused with \<open>ValueError\<close>; and for every value
  \<open>0 \<le> v < 65804\<close>, reading back the nibble and the extension bytes that were written
  gives \<open>v\<close> and leaves exactly the bytes that follow the extension.
\<close>

theorem writeExtendedFieldValue_thresholds:
  "writeExtendedFieldValue 12 = Inr (12, [])
   \<and> writeExtendedFieldValue 13 = Inr (13, [0x00])
   \<and> writeExtendedFieldValue 268 = Inr (13, [0xFF])
   \<and> writeExtendedFieldValue 269 = Inr (14, [0x00, 0x00])
   \<and> writeExtendedFieldValue 65803 = Inr (14, [0xFF, 0xFE])
   \<and> (\<forall>v. 65804 \<le> v \<longrightarrow> writeExtendedFieldValue v = Inl ValueError)
   \<and> (\<forall>v rest. 0 \<le> v \<and> v < 65804 \<longrightarrow>
         (\<exists>n ext. writeExtendedFieldValue v = Inr (n, ext)
            \<and> readExtendedFieldValue n (ext @ rest) = Inr (v, rest)))"
proof -
  have table: "writeExtendedFieldValue 12 = Inr (12, [])
     \<and> writeExtendedFieldValue 13 = Inr (13, [0x00])
     \<and> writeExtendedFieldValue 268 = Inr (13, [0xFF])
     \<and> writeExtendedFieldValue 269 = Inr (14, [0x00, 0x00])
     \<and> writeExtendedFieldValue 65803 = Inr (14, [0xFF, 0xFE])"
    by (simp add: writeExtendedFieldValue_def pack_B_def pack_H_def)
  have ceiling: "\<forall>v. 65804 \<le> v \<longrightarrow> writeExtendedFieldValue v = Inl ValueError"
    by (simp add: writeExtendedFieldValue_def)
  have roundtrip: "\<forall>v rest. 0 \<le> v \<and> v < 65804 \<longrightarrow>
         (\<exists>n ext. writeExtendedFieldValue v = Inr (n, ext)
            \<and> readExtendedFieldValue n (ext @ rest) = Inr (v, rest))"
    using write_read_field by blast
  from table ceiling roundtrip show ?thesis by blast
qed

theorem writeExtendedFieldValue_thresholds_witness:
  "writeExtendedFieldValue 65804 = Inl ValueError
   \<and> (\<exists>n ext. writeExtendedFieldValue 300 = Inr (n, ext)
         \<and> readExtendedFieldValue n (ext @ [7]) = Inr (300, [7]))"
proof -
  from writeExtendedFieldValue_thresholds
  have ceiling: "\<And>v. 65804 \<le> v \<Longrightarrow> writeExtendedFieldValue v = Inl ValueError"
    and roundtrip: "\<And>v rest. 0 \<le> v \<and> v < 65804 \<Longrightarrow>
          \<exists>n ext. writeExtendedFieldValue v = Inr (n, ext)
            \<and> readExtendedFieldValue n (ext @ rest) = Inr (v, rest)"
    by blast+
  have "writeExtendedFieldValue 65804 = Inl ValueError"
    by (rule ceiling) simp
  moreover have "\<exists>n ext. writeExtendedFieldValue 300 = Inr (n, ext)
         \<and> readExtendedFieldValue n (ext @ [7]) = Inr (300, [7])"
    by (rule roundtrip) simp
  ultimately show ?thesis by (rule conjI)
qed

section \<open>Unsigned-integer and block option values\<close>

lemma push_bit_add_low:
  fixes a c :: int
  assumes "0 \<le> c" and "c < 2 ^ n"
  shows "push_bit n a + c = push_bit n a OR c"
proof -
  have c: "take_bit n c = c"
    using assms by (simp add: take_bit_int_eq_self)
  have "push_bit n a + c = take_bit n c + push_bit n a"
    by (simp add: c)
  also have "\<dots> = concat_bit n c a"
    by (simp only: concat_bit_eq)
  also have "\<dots> = take_bit n c OR push_bit n a"
    by (simp only: concat_bit_def)
  finally show ?thesis
    by (simp add: c or.commute)
qed

lemma BlockOption_as_integer_or:
  assumes "0 \<le> sz" and "sz \<le> 7"
  shows "BlockOption_as_integer bn m sz = push_bit 4 bn OR (if m then 8 else 0) OR sz"
proof -
  define c :: int where "c = (if m then 8 else 0)"
  have c8: "c = push_bit 3 (if m then 1 else 0)"
    by (simp add: c_def)
  have low: "c + sz = c OR sz"
    unfolding c8 using assms by (intro push_bit_add_low) simp_all
  have "0 \<le> c + sz" and "c + sz < 2 ^ 4"
    using assms by (simp_all add: c_def)
  then have "push_bit 4 bn + (c + sz) = push_bit 4 bn OR (c + sz)"
    by (rule push_bit_add_low)
  then have "push_bit 4 bn + c + sz = push_bit 4 bn OR c OR sz"
    by (simp add: low or.assoc add.assoc)
  then show ?thesis
    by (cases m) (simp_all add: BlockOption_as_integer_def c_def)
qed

lemma BlockOption_as_integer_bounds:
  assumes "0 \<le> sz" and "sz \<le> 7"
  shows "16 * bn \<le> BlockOption_as_integer bn m sz"
    and "BlockOption_as_integer bn m sz < 16 * bn + 16"
  using assms by (simp_all add: BlockOption_as_integer_def push_bit_eq_mult)

lemma BlockOption_as_integer_ge_2p32:
  assumes "0 \<le> sz" and "sz \<le> 7"
  shows "4294967296 \<le> BlockOption_as_integer bn m sz \<longleftrightarrow> 268435456 \<le> bn"
  using BlockOption_as_integer_bounds [OF assms, of bn m] by linarith

lemma UintOption_encode_minimal:
  assumes "0 \<le> v" and "v < 4294967296"
  shows "\<exists>s. UintOption_encode v = Inr s \<and> minimal_big_endian s v"
proof -
  from pack_L_bytes [OF assms] obtain s where s: "pack_L v = Inr s" "big_endian s = v"
    by blast
  from s(2) have "minimal_big_endian (lstrip0 s) v"
    by (rule lstrip0_minimal)
  with s(1) show ?thesis
    by (simp add: UintOption_encode_def)
qed

lemma pack_L_too_large: "4294967296 \<le> v \<Longrightarrow> pack_L v = Inl StructError"
  by (simp add: pack_L_def)


text \<open>
  C10: the unsigned-integer codec is defined below \<open>2 ^ 32\<close> only. For every
  \<open>0 \<le> v < 2 ^ 32\<close> \<open>UintOption.encode\<close> gives the minimal big-endian bytes of \<open>v\<close>; for
  every \<open>v \<ge> 2 ^ 32\<close> it fails in \<open>struct.pack\<close>. \<open>BlockOption.encode\<close> packs
  \<open>(block_number << 4) | (more ? 0x08 : 0) | size_exponent\<close> and fails whenever that integer
  is at least \<open>2 ^ 32\<close>, which for a size exponent in 0..7 is \<open>block_number \<ge> 2 ^ 28\<close>.
\<close>

theorem encode_32bit_precondition:
  "(\<forall>v. 0 \<le> v \<and> v < 4294967296 \<longrightarrow>
      (\<exists>s. UintOption_encode v = Inr s \<and> minimal_big_endian s v))
   \<and> (\<forall>v. 4294967296 \<le> v \<longrightarrow> UintOption_encode v = Inl StructError)
   \<and> (\<forall>bn m sz. 0 \<le> sz \<and> sz \<le> 7 \<longrightarrow>
         BlockOption_as_integer bn m sz = push_bit 4 bn OR (if m then 8 else 0) OR sz)
   \<and> (\<forall>bn m sz. 4294967296 \<le> BlockOption_as_integer bn m sz \<longrightarrow>
         BlockOption_encode bn m sz = Inl StructError)
   \<and> (\<forall>bn m sz. 0 \<le> sz \<and> sz \<le> 7 \<longrightarrow>
         (4294967296 \<le> BlockOption_as_integer bn m sz \<longleftrightarrow> 268435456 \<le> bn))"
proof (intro conjI allI impI)
  fix v :: int
  assume "0 \<le> v \<and> v < 4294967296"
  then show "\<exists>s. UintOption_encode v = Inr s \<and> minimal_big_endian s v"
    using UintOption_encode_minimal by blast
next
  fix v :: int
  assume "4294967296 \<le> v"
  then show "UintOption_encode v = Inl StructError"
    by (simp add: UintOption_encode_def pack_L_too_large)
next
  fix bn sz :: int and m :: bool
  assume "0 \<le> sz \<and> sz \<le> 7"
  then show "BlockOption_as_integer bn m sz = push_bit 4 bn OR (if m then 8 else 0) OR sz"
    using BlockOption_as_integer_or by blast
next
  fix bn sz :: int and m :: bool
  assume "4294967296 \<le> BlockOption_as_integer bn m sz"
  then show "BlockOption_encode bn m sz = Inl StructError"
    by (simp add: BlockOption_encode_def pack_L_too_large)
next
  fix bn sz :: int and m :: bool
  assume "0 \<le> sz \<and> sz \<le> 7"
  then show "4294967296 \<le> BlockOption_as_integer bn m sz \<longleftrightarrow> 268435456 \<le> bn"
    using BlockOption_as_integer_ge_2p32 by blast
qed

theorem encode_32bit_precondition_witness:
  "UintOption_encode 0 = Inr []
   \<and> UintOption_encode 256 = Inr [1, 0] \<and> minimal_big_endian [1, 0] 256
   \<and> UintOption_encode 4294967296 = Inl StructError
   \<and> BlockOption_as_integer 268435456 False 0 = 4294967296
   \<and> BlockOption_encode 268435456 False 0 = Inl StructError"
proof -
  note t = encode_32bit_precondition
  from t have enc: "\<And>v. 0 \<le> v \<and> v < 4294967296 \<Longrightarrow>
      \<exists>s. UintOption_encode v = Inr s \<and> minimal_big_endian s v"
    by blast
  from t have big: "\<And>v. 4294967296 \<le> v \<Longrightarrow> UintOption_encode v = Inl StructError"
    by blast
  from t have blk: "\<And>bn m sz. 4294967296 \<le> BlockOption_as_integer bn m sz \<Longrightarrow>
         BlockOption_encode bn m sz = Inl StructError"
    by blast
  have e0: "UintOption_encode 0 = Inr []"
    by (simp add: UintOption_encode_def pack_L_def lstrip0_def)
  have e256: "UintOption_encode 256 = Inr [1, 0]"
    by (simp add: UintOption_encode_def pack_L_def lstrip0_def)
  have "\<exists>s. UintOption_encode 256 = Inr s \<and> minimal_big_endian s 256"
    by (rule enc) simp
  with e256 have m256: "minimal_big_endian [1, 0] 256"
    by simp
  have b: "UintOption_encode 4294967296 = Inl StructError"
    by (rule big) simp
  have a: "BlockOption_as_integer 268435456 False 0 = 4294967296"
    by (simp add: BlockOption_as_integer_def)
  have "BlockOption_encode 268435456 False 0 = Inl StructError"
    by (rule blk) (simp add: a)
  with e0 e256 m256 b a show ?thesis
    by (intro conjI)
qed

section \<open>The block option: canonical encoding and reported length\<close>

lemma big_endian_upper: "big_endian s < 256 ^ length s"
proof (induction s)
  case Nil
  show ?case by simp
next
  case (Cons b r)
  define p :: int where "p = 256 ^ length r"
  have "uint b < 2 ^ LENGTH(8)" by (rule uint_lt2p)
  then have "uint b \<le> 255" by simp
  then have m: "uint b * p \<le> 255 * p"
    by (rule mult_right_mono) (simp add: p_def)
  have ih: "big_endian r < p"
    using Cons.IH by (simp add: p_def)
  have "big_endian (b # r) = uint b * p + big_endian r"
    by (simp add: p_def)
  moreover have "256 ^ length (b # r) = 256 * p"
    by (simp add: p_def)
  ultimately show ?case
    using m ih by linarith
qed

lemma big_endian_lower:
  assumes "s \<noteq> []" and "hd s \<noteq> 0"
  shows "256 ^ (length s - 1) \<le> big_endian s"
proof (cases s)
  case Nil
  with assms show ?thesis by simp
next
  case (Cons b r)
  define p :: int where "p = 256 ^ length r"
  from Cons assms have "b \<noteq> 0" by simp
  then have "uint b \<noteq> 0" by (simp add: uint_0_iff)
  moreover have "0 \<le> uint b" by simp
  ultimately have "1 \<le> uint b" by linarith
  then have m: "1 * p \<le> uint b * p"
    by (rule mult_right_mono) (simp add: p_def)
  have "big_endian s = uint b * p + big_endian r"
    using Cons by (simp add: p_def)
  moreover have "256 ^ (length s - 1) = p"
    using Cons by (simp add: p_def)
  ultimately show ?thesis
    using m big_endian_nonneg [of r] by linarith
qed

lemma length_lstrip0_le: "length (lstrip0 s) \<le> length s"
  by (simp add: lstrip0_def length_dropWhile_le)

lemma bit_length_nat_le_iff: "bit_length_nat n \<le> k \<longleftrightarrow> n < 2 ^ k"
proof (induction k arbitrary: n)
  case 0
  show ?case by (subst bit_length_nat.simps) simp
next
  case (Suc k)
  have "bit_length_nat n \<le> Suc k \<longleftrightarrow> n = 0 \<or> bit_length_nat (n div 2) \<le> k"
    by (subst bit_length_nat.simps) simp
  also have "\<dots> \<longleftrightarrow> n = 0 \<or> n div 2 < 2 ^ k"
    by (simp only: Suc.IH)
  also have "\<dots> \<longleftrightarrow> n < 2 ^ Suc k"
    by auto
  finally show ?case .
qed

text \<open>The length of a canonical encoding, read off the value.\<close>

lemma minimal_length_cases:
  assumes "minimal_big_endian t v" and "length t \<le> 4" and "v \<noteq> 0"
  shows "length t = 1 \<and> v < 256
       \<or> length t = 2 \<and> 256 \<le> v \<and> v < 65536
       \<or> length t = 3 \<and> 65536 \<le> v \<and> v < 16777216
       \<or> length t = 4 \<and> 16777216 \<le> v"
proof -
  from assms have be: "big_endian t = v" and ne: "t \<noteq> []" and hd: "hd t \<noteq> 0"
    by (auto simp: minimal_big_endian_def)
  from big_endian_upper [of t] be have up: "v < 256 ^ length t" by simp
  from big_endian_lower [OF ne hd] be have lo: "256 ^ (length t - 1) \<le> v" by simp
  from ne have "length t \<noteq> 0" by simp
  with assms(2) consider "length t = 1" | "length t = 2" | "length t = 3" | "length t = 4"
    by arith
  then show ?thesis
  proof cases
    case 1 with up show ?thesis by simp
  next
    case 2 with up lo show ?thesis by simp
  next
    case 3 with up lo show ?thesis by simp
  next
    case 4 with up lo show ?thesis by simp
  qed
qed


lemma bit_length_le_iff:
  assumes "0 \<le> v"
  shows "bit_length v \<le> int k \<longleftrightarrow> v < 2 ^ k"
proof -
  have "bit_length_nat (nat v) \<le> k \<longleftrightarrow> nat v < 2 ^ k"
    by (rule bit_length_nat_le_iff)
  also have "\<dots> \<longleftrightarrow> v < 2 ^ k"
    using assms by (simp add: nat_less_iff)
  finally show ?thesis
    using assms by (simp add: bit_length_def)
qed

lemma BlockOption_length_eq:
  assumes bn: "0 \<le> bn" "bn < 268435456" and sz: "0 \<le> sz" "sz \<le> 7"
    and nz: "BlockOption_as_integer bn m sz \<noteq> 0"
    and enc: "BlockOption_encode bn m sz = Inr t"
  shows "BlockOption_length bn m sz = int (length t)"
proof -
  define v where "v = BlockOption_as_integer bn m sz"
  define bl where "bl = bit_length bn"
  have lo: "16 * bn \<le> v" and hi: "v < 16 * bn + 16"
    unfolding v_def using sz by (rule BlockOption_as_integer_bounds)+
  have v: "0 \<le> v" "v < 4294967296"
    using lo hi bn by linarith+
  from pack_L_bytes [OF v] obtain s
    where s: "pack_L v = Inr s" "length s = 4" "big_endian s = v"
    by blast
  from enc s(1) have t: "t = lstrip0 s"
    by (simp add: BlockOption_encode_def v_def [symmetric])
  have "minimal_big_endian t v"
    unfolding t using s(3) by (rule lstrip0_minimal)
  moreover have "length t \<le> 4"
    unfolding t using length_lstrip0_le [of s] s(2) by simp
  moreover have "v \<noteq> 0"
    using nz by (simp add: v_def)
  ultimately have cases: "length t = 1 \<and> v < 256
       \<or> length t = 2 \<and> 256 \<le> v \<and> v < 65536
       \<or> length t = 3 \<and> 65536 \<le> v \<and> v < 16777216
       \<or> length t = 4 \<and> 16777216 \<le> v"
    by (rule minimal_length_cases)
  have bl0: "0 \<le> bl"
    by (simp add: bl_def bit_length_def)
  have le4: "bl \<le> 4 \<longleftrightarrow> bn < 16"
    using bit_length_le_iff [OF bn(1), of 4] by (simp add: bl_def)
  have le12: "bl \<le> 12 \<longleftrightarrow> bn < 4096"
    using bit_length_le_iff [OF bn(1), of 12] by (simp add: bl_def)
  have le20: "bl \<le> 20 \<longleftrightarrow> bn < 1048576"
    using bit_length_le_iff [OF bn(1), of 20] by (simp add: bl_def)
  have le28: "bl \<le> 28 \<longleftrightarrow> bn < 268435456"
    using bit_length_le_iff [OF bn(1), of 28] by (simp add: bl_def)
  have len: "BlockOption_length bn m sz = (bl + 3) div 8 + 1"
    by (simp add: BlockOption_length_def bl_def)
  from cases consider
      (one) "length t = 1" "bn < 16"
    | (two) "length t = 2" "16 \<le> bn" "bn < 4096"
    | (three) "length t = 3" "4096 \<le> bn" "bn < 1048576"
    | (four) "length t = 4" "1048576 \<le> bn"
    using lo hi by fastforce
  then have "(bl + 3) div 8 + 1 = int (length t)"
  proof cases
    case one
    with le4 bl0 have "0 \<le> bl + 3" "bl + 3 < 8" by simp_all
    then have "(bl + 3) div 8 = 0" by simp
    with one show ?thesis by simp
  next
    case two
    with le4 le12 have "8 \<le> bl + 3" "bl + 3 < 16" by simp_all
    then have "(bl + 3) div 8 = 1" by linarith
    with two show ?thesis by simp
  next
    case three
    with le12 le20 have "16 \<le> bl + 3" "bl + 3 < 24" by simp_all
    then have "(bl + 3) div 8 = 2" by linarith
    with three show ?thesis by simp
  next
    case four
    with le20 le28 bn have "24 \<le> bl + 3" "bl + 3 < 32" by simp_all
    then have "(bl + 3) div 8 = 3" by linarith
    with four show ?thesis by simp
  qed
  with len show ?thesis by simp
qed


lemma BlockOption_as_integer_nonzero:
  assumes "0 \<le> bn" and "0 \<le> sz" and "(bn, m, sz) \<noteq> (0, False, 0)"
  shows "BlockOption_as_integer bn m sz \<noteq> 0"
  using assms by (auto simp: BlockOption_as_integer_def push_bit_eq_mult)

text \<open>
  C3, as the claim states it, fails twice. For the descriptor \<open>(0, False, 0)\<close> the packed
  integer is 0 and \<open>encode\<close> gives no byte, while the reported length is 1. For a block
  number of \<open>2 ^ 28\<close> the packed integer does not fit \<open>struct.pack("!L", ...)\<close> and \<open>encode\<close>
  raises.
\<close>

theorem BlockOption_length_counterexample:
  "BlockOption_encode 0 False 0 = Inr []
   \<and> BlockOption_length 0 False 0 = 1
   \<and> BlockOption_encode 268435456 False 0 = Inl StructError"
proof (intro conjI)
  show "BlockOption_encode 0 False 0 = Inr []"
    by (simp add: BlockOption_encode_def BlockOption_as_integer_def pack_L_def lstrip0_def)
  show "BlockOption_length 0 False 0 = 1"
    by (simp add: BlockOption_length_def bit_length_def bit_length_nat.simps)
  show "BlockOption_encode 268435456 False 0 = Inl StructError"
    by (simp add: BlockOption_encode_def BlockOption_as_integer_def pack_L_def)
qed

text \<open>
  C3 (amended): for every block descriptor with \<open>0 \<le> block_number < 2 ^ 28\<close>, \<open>more\<close> a
  boolean and \<open>size_exponent\<close> in 0..7, \<open>BlockOption.encode\<close> produces the canonical
  minimal big-endian encoding of \<open>(block_number << 4) | (more ? 0x08 : 0) | size_exponent\<close>;
  and for every such descriptor other than \<open>(0, False, 0)\<close> the reported length is the
  number of bytes that \<open>encode\<close> produces.
\<close>

theorem BlockOption_encode_canonical:
  assumes "0 \<le> bn" and "bn < 268435456" and "0 \<le> sz" and "sz \<le> 7"
  shows "\<exists>s. BlockOption_encode bn m sz = Inr s
           \<and> minimal_big_endian s (push_bit 4 bn OR (if m then 8 else 0) OR sz)
           \<and> ((bn, m, sz) \<noteq> (0, False, 0) \<longrightarrow> BlockOption_length bn m sz = int (length s))"
proof -
  define v where "v = BlockOption_as_integer bn m sz"
  have "16 * bn \<le> v" and "v < 16 * bn + 16"
    unfolding v_def using assms(3,4) by (rule BlockOption_as_integer_bounds)+
  with assms have v: "0 \<le> v" "v < 4294967296"
    by linarith+
  from pack_L_bytes [OF v] obtain s where s: "pack_L v = Inr s" "big_endian s = v"
    by blast
  have enc: "BlockOption_encode bn m sz = Inr (lstrip0 s)"
    using s(1) by (simp add: BlockOption_encode_def v_def [symmetric])
  have "minimal_big_endian (lstrip0 s) v"
    using s(2) by (rule lstrip0_minimal)
  then have canon: "minimal_big_endian (lstrip0 s) (push_bit 4 bn OR (if m then 8 else 0) OR sz)"
    unfolding v_def by (simp only: BlockOption_as_integer_or [OF assms(3,4)])
  have "BlockOption_length bn m sz = int (length (lstrip0 s))"
    if "(bn, m, sz) \<noteq> (0, False, 0)"
  proof -
    from assms(1,3) that have "BlockOption_as_integer bn m sz \<noteq> 0"
      by (rule BlockOption_as_integer_nonzero)
    with assms show ?thesis
      using enc by (rule BlockOption_length_eq)
  qed
  with enc canon show ?thesis by blast
qed

theorem BlockOption_encode_canonical_witness:
  "BlockOption_encode 1 True 2 = Inr [26]
   \<and> minimal_big_endian [26] 26
   \<and> BlockOption_length 1 True 2 = 1"
proof -
  have e: "BlockOption_encode 1 True 2 = Inr [26]"
    by (simp add: BlockOption_encode_def BlockOption_as_integer_def pack_L_def lstrip0_def)
  have p: "push_bit 4 (1::int) OR 8 OR 2 = 26"
    by simp
  have "\<exists>s. BlockOption_encode 1 True 2 = Inr s
           \<and> minimal_big_endian s (push_bit 4 1 OR (if True then 8 else 0) OR 2)
           \<and> ((1::int, True, 2::int) \<noteq> (0, False, 0) \<longrightarrow>
                 BlockOption_length 1 True 2 = int (length s))"
    by (rule BlockOption_encode_canonical) simp_all
  with e p show ?thesis
    by simp
qed

section \<open>Blockwise transfer\<close>

lemma getOption_addOption:
  "getOption (addOption os x) n =
     (if n = number x
      then Some ((case getOption os n of None \<Rightarrow> [] | Some vs \<Rightarrow> vs) @ [x])
      else getOption os n)"
  by (induction os x rule: addOption.induct) (auto simp: getOption_def)

lemma getOption_deleteOption:
  "getOption (deleteOption os k) n = (if n = k then None else getOption os n)"
  by (induction os) (auto simp: getOption_def deleteOption_def)

lemma getOption_init: "getOption Options_init n = None"
  by (simp add: getOption_def Options_init_def)

lemma getOption_setBlock2:
  "getOption (setBlock2 os (bn, m, sz)) n =
     (if n = BLOCK2 then Some [BlockOption BLOCK2 bn m sz] else getOption os n)"
  by (simp add: setBlock2_def getOption_addOption getOption_deleteOption)

lemma getOption_setBlock1:
  "getOption (setBlock1 os (bn, m, sz)) n =
     (if n = BLOCK1 then Some [BlockOption BLOCK1 bn m sz] else getOption os n)"
  by (simp add: setBlock1_def getOption_addOption getOption_deleteOption)

lemma block_starts_at_nonneg:
  "0 \<le> sz \<Longrightarrow> block_starts_at bn sz n \<longleftrightarrow> bn * 2 ^ nat (sz + 4) = int n"
  by (simp add: block_starts_at_def)

lemma append_offset_mismatch_raises:
  assumes "0 \<le> sz" and "bn * 2 ^ nat (sz + 4) \<noteq> int (length (payload self))"
  shows "(isRequest (code self) \<and> getBlock1 (opt next_block) = Inr (Some (BlockVal bn m sz))
            \<longrightarrow> appendRequestBlock self next_block = (self, Some NameError))
       \<and> (isResponse (code self) \<and> getBlock2 (opt next_block) = Inr (Some (BlockVal bn m sz))
            \<longrightarrow> appendResponseBlock self next_block = (self, Some NameError))"
  using assms
  by (simp add: appendRequestBlock_def appendResponseBlock_def block_starts_at_nonneg)

lemma append_etag_mismatch_raises:
  assumes "isResponse (code self)"
    and "getBlock2 (opt next_block) = Inr (Some (BlockVal bn m sz))"
    and "0 \<le> sz" and "bn * 2 ^ nat (sz + 4) = int (length (payload self))"
    and "getETag (opt next_block) = Inr next_etag"
    and "getETag (opt self) = Inr self_etag"
    and "next_etag \<noteq> self_etag"
  shows "appendResponseBlock self next_block = (self, Some NameError)"
  using assms by (simp add: appendResponseBlock_def block_starts_at_nonneg)

text \<open>
  C4 fails on the code. A request accumulator with the three-byte payload \<open>01 02 03\<close>
  receives a block whose Block1 is \<open>(1, False, 0)\<close>, offset 16; a response accumulator with
  the same payload receives a block whose Block2 is \<open>(1, False, 0)\<close>. In both calls the
  offset test fails and the accumulator is left as it was, but the statement reached,
  \<open>raise iot.error.NotImplemented()\<close>, raises \<open>NameError\<close>: the block sequence error it
  names is never constructed.
\<close>

theorem append_block_offset_mismatch_NameError:
  "appendRequestBlock
     (Message_init (Some 0) (Some 1) 1 [1, 2, 3] [])
     ((Message_init (Some 0) (Some 2) 1 [4] [])\<lparr>opt := setBlock1 Options_init (1, False, 0)\<rparr>)
   = (Message_init (Some 0) (Some 1) 1 [1, 2, 3] [], Some NameError)
   \<and> appendResponseBlock
     (Message_init (Some 2) (Some 1) 69 [1, 2, 3] [])
     ((Message_init (Some 2) (Some 2) 69 [4] [])\<lparr>opt := setBlock2 Options_init (1, False, 0)\<rparr>)
   = (Message_init (Some 2) (Some 1) 69 [1, 2, 3] [], Some NameError)"
proof -
  have g1: "getBlock1 (setBlock1 Options_init (1, False, 0)) = Inr (Some (BlockVal 1 False 0))"
    by (simp add: getBlock1_def first_value_def getOption_setBlock1)
  have g2: "getBlock2 (setBlock2 Options_init (1, False, 0)) = Inr (Some (BlockVal 1 False 0))"
    by (simp add: getBlock2_def first_value_def getOption_setBlock2)
  have rq: "isRequest (code (Message_init (Some 0) (Some 1) 1 [1, 2, 3] []))"
    by (simp add: isRequest_def Message_init_def)
  have rs: "isResponse (code (Message_init (Some 2) (Some 1) 69 [1, 2, 3] []))"
    by (simp add: isResponse_def Message_init_def)
  have a: "(0::int) \<le> 0" by simp
  have b1: "1 * 2 ^ nat (0 + 4)
             \<noteq> int (length (payload (Message_init (Some 0) (Some 1) 1 [1, 2, 3] [])))"
    by (simp add: Message_init_def)
  have b2: "1 * 2 ^ nat (0 + 4)
             \<noteq> int (length (payload (Message_init (Some 2) (Some 1) 69 [1, 2, 3] [])))"
    by (simp add: Message_init_def)
  from append_offset_mismatch_raises [OF a b1, where m = False and next_block =
         "(Message_init (Some 0) (Some 2) 1 [4] [])\<lparr>opt := setBlock1 Options_init (1, False, 0)\<rparr>"]
       rq g1
  have r1: "appendRequestBlock
     (Message_init (Some 0) (Some 1) 1 [1, 2, 3] [])
     ((Message_init (Some 0) (Some 2) 1 [4] [])\<lparr>opt := setBlock1 Options_init (1, False, 0)\<rparr>)
   = (Message_init (Some 0) (Some 1) 1 [1, 2, 3] [], Some NameError)"
    by simp
  from append_offset_mismatch_raises [OF a b2, where m = False and next_block =
         "(Message_init (Some 2) (Some 2) 69 [4] [])\<lparr>opt := setBlock2 Options_init (1, False, 0)\<rparr>"]
       rs g2
  have r2: "appendResponseBlock
     (Message_init (Some 2) (Some 1) 69 [1, 2, 3] [])
     ((Message_init (Some 2) (Some 2) 69 [4] [])\<lparr>opt := setBlock2 Options_init (1, False, 0)\<rparr>)
   = (Message_init (Some 2) (Some 1) 69 [1, 2, 3] [], Some NameError)"
    by simp
  from r1 r2 show ?thesis by (rule conjI)
qed

text \<open>
  C8 fails on the code. A response accumulator with ETag \<open>a\<close> and an empty payload
  receives a block at offset 0 whose ETag is \<open>b\<close>: the ETag test fails and the payload is
  not extended, but \<open>raise iot.error.ResourceChanged()\<close> raises \<open>NameError\<close>. A block with
  the accumulator's own ETag and a wrong offset ends in the same \<open>NameError\<close>, so a caller
  cannot tell a changed resource from a gap in the sequence.
\<close>

theorem appendResponseBlock_etag_mismatch_NameError:
  "appendResponseBlock
     ((Message_init (Some 2) (Some 1) 69 [] [])
        \<lparr>opt := addOption Options_init (StringOption ETAG [97])\<rparr>)
     ((Message_init (Some 2) (Some 2) 69 [1] [])
        \<lparr>opt := setBlock2 (addOption Options_init (StringOption ETAG [98])) (0, True, 0)\<rparr>)
   = ((Message_init (Some 2) (Some 1) 69 [] [])
        \<lparr>opt := addOption Options_init (StringOption ETAG [97])\<rparr>, Some NameError)
   \<and> appendResponseBlock
     ((Message_init (Some 2) (Some 1) 69 [] [])
        \<lparr>opt := addOption Options_init (StringOption ETAG [97])\<rparr>)
     ((Message_init (Some 2) (Some 2) 69 [1] [])
        \<lparr>opt := setBlock2 (addOption Options_init (StringOption ETAG [97])) (1, True, 0)\<rparr>)
   = ((Message_init (Some 2) (Some 1) 69 [] [])
        \<lparr>opt := addOption Options_init (StringOption ETAG [97])\<rparr>, Some NameError)"
proof -
  define acc where "acc = (Message_init (Some 2) (Some 1) 69 [] [])
        \<lparr>opt := addOption Options_init (StringOption ETAG [97])\<rparr>"
  define nxt where "nxt = (Message_init (Some 2) (Some 2) 69 [1] [])
        \<lparr>opt := setBlock2 (addOption Options_init (StringOption ETAG [98])) (0, True, 0)\<rparr>"
  define gap where "gap = (Message_init (Some 2) (Some 2) 69 [1] [])
        \<lparr>opt := setBlock2 (addOption Options_init (StringOption ETAG [97])) (1, True, 0)\<rparr>"
  have rs: "isResponse (code acc)"
    by (simp add: acc_def isResponse_def Message_init_def)
  have g: "getBlock2 (opt nxt) = Inr (Some (BlockVal 0 True 0))"
    by (simp add: nxt_def getBlock2_def first_value_def getOption_setBlock2)
  have z: "(0::int) \<le> 0" by simp
  have off: "0 * 2 ^ nat (0 + 4) = int (length (payload acc))"
    by (simp add: acc_def Message_init_def)
  have e1: "getETag (opt nxt) = Inr (Some (StrVal [98]))"
    by (simp add: nxt_def getETag_def first_value_def getOption_setBlock2 getOption_addOption
        getOption_init ETAG_def BLOCK2_def)
  have e2: "getETag (opt acc) = Inr (Some (StrVal [97]))"
    by (simp add: acc_def getETag_def first_value_def getOption_addOption
        getOption_init ETAG_def)
  have ne: "Some (StrVal [98]) \<noteq> Some (StrVal [97])"
    by simp
  have r1: "appendResponseBlock acc nxt = (acc, Some NameError)"
    using rs g z off e1 e2 ne by (rule append_etag_mismatch_raises)
  have gg: "getBlock2 (opt gap) = Inr (Some (BlockVal 1 True 0))"
    by (simp add: gap_def getBlock2_def first_value_def getOption_setBlock2)
  have goff: "1 * 2 ^ nat (0 + 4) \<noteq> int (length (payload acc))"
    by (simp add: acc_def Message_init_def)
  from append_offset_mismatch_raises [OF z goff, where m = True and next_block = gap] rs gg
  have r2: "appendResponseBlock acc gap = (acc, Some NameError)"
    by simp
  from r1 r2 show ?thesis
    unfolding acc_def nxt_def gap_def by (rule conjI)
qed

text \<open>
  C9: when the response's Block2 is \<open>(0, more, 6)\<close> (with the default exponent 2),
  \<open>generateNextBlock2Request\<close> returns the original request with empty payload, no message
  ID, Block2 set to \<open>(16, False, 2)\<close> and no Block1 or Observe option, every other field and
  option as in the original; and when the response's block number is not 0 or its size
  exponent is at most the default, the result's Block2 is
  \<open>(block_number + 1, False, size_exponent)\<close>.
\<close>

theorem generateNextBlock2Request_block2:
  "DEFAULT_BLOCK_SIZE_EXP = 2
   \<and> (getBlock2 (opt response) = Inr (Some (BlockVal 0 m 6)) \<longrightarrow>
        (\<exists>request. generateNextBlock2Request self response = Inr request
           \<and> request = self\<lparr>payload := [], mid := None, opt := opt request\<rparr>
           \<and> getBlock2 (opt request) = Inr (Some (BlockVal 16 False 2))
           \<and> getOption (opt request) BLOCK1 = None
           \<and> getOption (opt request) OBSERVE = None
           \<and> (\<forall>n. n \<noteq> BLOCK2 \<and> n \<noteq> BLOCK1 \<and> n \<noteq> OBSERVE \<longrightarrow>
                 getOption (opt request) n = getOption (opt self) n)))
   \<and> (getBlock2 (opt response) = Inr (Some (BlockVal bn m sz))
        \<and> (bn \<noteq> 0 \<or> sz \<le> DEFAULT_BLOCK_SIZE_EXP) \<longrightarrow>
        (\<exists>request. generateNextBlock2Request self response = Inr request
           \<and> request = self\<lparr>payload := [], mid := None, opt := opt request\<rparr>
           \<and> getBlock2 (opt request) = Inr (Some (BlockVal (bn + 1) False sz))
           \<and> getOption (opt request) BLOCK1 = None
           \<and> getOption (opt request) OBSERVE = None
           \<and> (\<forall>n. n \<noteq> BLOCK2 \<and> n \<noteq> BLOCK1 \<and> n \<noteq> OBSERVE \<longrightarrow>
                 getOption (opt request) n = getOption (opt self) n)))"
proof (intro conjI impI)
  show "DEFAULT_BLOCK_SIZE_EXP = 2"
    by (simp add: DEFAULT_BLOCK_SIZE_EXP_def)
next
  assume "getBlock2 (opt response) = Inr (Some (BlockVal 0 m 6))"
  then show "\<exists>request. generateNextBlock2Request self response = Inr request
           \<and> request = self\<lparr>payload := [], mid := None, opt := opt request\<rparr>
           \<and> getBlock2 (opt request) = Inr (Some (BlockVal 16 False 2))
           \<and> getOption (opt request) BLOCK1 = None
           \<and> getOption (opt request) OBSERVE = None
           \<and> (\<forall>n. n \<noteq> BLOCK2 \<and> n \<noteq> BLOCK1 \<and> n \<noteq> OBSERVE \<longrightarrow>
                 getOption (opt request) n = getOption (opt self) n)"
    by (simp add: generateNextBlock2Request_def DEFAULT_BLOCK_SIZE_EXP_def getBlock2_def
        first_value_def getOption_deleteOption getOption_setBlock2
        BLOCK1_def BLOCK2_def OBSERVE_def)
next
  assume "getBlock2 (opt response) = Inr (Some (BlockVal bn m sz))
        \<and> (bn \<noteq> 0 \<or> sz \<le> DEFAULT_BLOCK_SIZE_EXP)"
  then show "\<exists>request. generateNextBlock2Request self response = Inr request
           \<and> request = self\<lparr>payload := [], mid := None, opt := opt request\<rparr>
           \<and> getBlock2 (opt request) = Inr (Some (BlockVal (bn + 1) False sz))
           \<and> getOption (opt request) BLOCK1 = None
           \<and> getOption (opt request) OBSERVE = None
           \<and> (\<forall>n. n \<noteq> BLOCK2 \<and> n \<noteq> BLOCK1 \<and> n \<noteq> OBSERVE \<longrightarrow>
                 getOption (opt request) n = getOption (opt self) n)"
    by (auto simp: generateNextBlock2Request_def DEFAULT_BLOCK_SIZE_EXP_def getBlock2_def
        first_value_def getOption_deleteOption getOption_setBlock2
        BLOCK1_def BLOCK2_def OBSERVE_def)
qed


theorem generateNextBlock2Request_block2_witness:
  "(\<exists>request.
      generateNextBlock2Request
        ((Message_init (Some 0) (Some 7) 1 [] [9])
           \<lparr>opt := addOption Options_init (UintOption OBSERVE 0)\<rparr>)
        ((Message_init (Some 2) (Some 7) 69 [1] [9])
           \<lparr>opt := setBlock2 Options_init (0, True, 6)\<rparr>) = Inr request
      \<and> getBlock2 (opt request) = Inr (Some (BlockVal 16 False 2))
      \<and> getOption (opt request) OBSERVE = None)
   \<and> (\<exists>request.
      generateNextBlock2Request
        ((Message_init (Some 0) (Some 7) 1 [] [9])
           \<lparr>opt := addOption Options_init (UintOption OBSERVE 0)\<rparr>)
        ((Message_init (Some 2) (Some 7) 69 [1] [9])
           \<lparr>opt := setBlock2 Options_init (3, True, 2)\<rparr>) = Inr request
      \<and> getBlock2 (opt request) = Inr (Some (BlockVal 4 False 2)))"
proof -
  define orig where "orig = (Message_init (Some 0) (Some 7) 1 [] [9])
           \<lparr>opt := addOption Options_init (UintOption OBSERVE 0)\<rparr>"
  define r1 where "r1 = (Message_init (Some 2) (Some 7) 69 [1] [9])
           \<lparr>opt := setBlock2 Options_init (0, True, 6)\<rparr>"
  define r2 where "r2 = (Message_init (Some 2) (Some 7) 69 [1] [9])
           \<lparr>opt := setBlock2 Options_init (3, True, 2)\<rparr>"
  have g1: "getBlock2 (opt r1) = Inr (Some (BlockVal 0 True 6))"
    by (simp add: r1_def getBlock2_def first_value_def getOption_setBlock2)
  have g2: "getBlock2 (opt r2) = Inr (Some (BlockVal 3 True 2))"
    by (simp add: r2_def getBlock2_def first_value_def getOption_setBlock2)
  have c2: "(3::int) \<noteq> 0 \<or> (2::int) \<le> DEFAULT_BLOCK_SIZE_EXP"
    by simp
  from generateNextBlock2Request_block2 [where response = r1 and m = True and self = orig] g1
  have a: "\<exists>request. generateNextBlock2Request orig r1 = Inr request
      \<and> getBlock2 (opt request) = Inr (Some (BlockVal 16 False 2))
      \<and> getOption (opt request) OBSERVE = None"
    by blast
  from generateNextBlock2Request_block2
         [where response = r2 and m = True and bn = 3 and sz = 2 and self = orig] g2 c2
  have "\<exists>request. generateNextBlock2Request orig r2 = Inr request
      \<and> getBlock2 (opt request) = Inr (Some (BlockVal (3 + 1) False 2))"
    by blast
  then have b: "\<exists>request. generateNextBlock2Request orig r2 = Inr request
      \<and> getBlock2 (opt request) = Inr (Some (BlockVal 4 False 2))"
    by simp
  from a b show ?thesis
    unfolding orig_def r1_def r2_def by (rule conjI)
qed

section \<open>Decoding an option whose declared length is too long\<close>

text \<open>
  C2, as the claim states it, fails: in the two bytes \<open>0x12 0x41\<close> the option header
  declares delta 1 and length 2, one byte remains, and \<open>Options.decode\<close> returns normally
  with option 1 holding that single byte.
\<close>

theorem Options_decode_overlong_counterexample:
  "Options_decode [0x12, 0x41] = Inr ([(1, [StringOption 1 [0x41]])], [])"
  by (simp add: Options_decode_def Options_init_def py_ord_def readExtendedFieldValue_def
      decode_option_def option_formats_def)

text \<open>
  C2 (amended): when an option's declared length exceeds the bytes that remain after its
  header and extension bytes, \<open>Options.decode\<close> does not fail: the slice
  \<open>rawdata[:length]\<close> is the bytes that remain, the option is decoded from them and added
  under its number, and the loop ends with an empty payload. This holds at every pass of the
  loop, whatever the running option number and the options decoded before.
\<close>

theorem Options_decode_truncates:
  assumes "py_ord b \<noteq> 255"
    and "readExtendedFieldValue (drop_bit 4 (py_ord b AND 240)) rawdata = Inr (delta, rawdata1)"
    and "readExtendedFieldValue (py_ord b AND 15) rawdata1 = Inr (len, rawdata2)"
    and "int (length rawdata2) < len"
  shows "Options_decode_loop option_number os (b # rawdata)
         = Inr (addOption os (decode_option (option_number + delta) rawdata2), [])"
  using assms by simp

theorem Options_decode_truncates_witness:
  "Options_decode_loop 0 Options_init [0x12, 0x41]
   = Inr (addOption Options_init (decode_option (0 + 1) [0x41]), [])"
proof -
  have a: "py_ord 0x12 \<noteq> 255"
    by (simp add: py_ord_def)
  have b: "readExtendedFieldValue (drop_bit 4 (py_ord 0x12 AND 240)) [0x41] = Inr (1, [0x41])"
    by (simp add: py_ord_def readExtendedFieldValue_def)
  have c: "readExtendedFieldValue (py_ord 0x12 AND 15) [0x41] = Inr (2, [0x41])"
    by (simp add: py_ord_def readExtendedFieldValue_def)
  have d: "int (length [0x41 :: byte]) < 2"
    by simp
  from Options_decode_truncates [OF a b c d] show ?thesis .
qed

section \<open>The payload marker\<close>

lemma writeExtendedFieldValue_nibble:
  assumes "writeExtendedFieldValue v = Inr (n, ext)"
  shows "0 \<le> n \<and> n \<le> 14"
  using assms
  by (auto simp: writeExtendedFieldValue_def pack_B_def pack_H_def split: if_splits)

lemma nibble_and_15:
  fixes n :: int
  assumes "0 \<le> n" and "n \<le> 14"
  shows "n AND 15 = n"
proof -
  have "n < 2 ^ 4" using assms by simp
  with assms have "take_bit 4 n = n" by (simp add: take_bit_int_eq_self)
  then show ?thesis by (simp add: take_bit_eq_mask mask_eq_exp_minus_1)
qed

lemma option_header_byte:
  assumes "0 \<le> d" and "d \<le> 14" and "0 \<le> l" and "l \<le> 14"
  shows "\<exists>hdr. py_chr (push_bit 4 (d AND 15) + (l AND 15)) = Inr hdr
           \<and> py_ord hdr = 16 * d + l \<and> hdr \<noteq> 255"
proof -
  define h where "h = 16 * d + l"
  have h: "0 \<le> h" "h < 239" using assms by (simp_all add: h_def)
  have eq: "push_bit 4 (d AND 15) + (l AND 15) = h"
    using assms by (simp add: nibble_and_15 push_bit_eq_mult h_def)
  have o: "py_ord (word_of_int h) = h"
    using h by (intro py_ord_word_of_int) simp_all
  then have "(word_of_int h :: byte) \<noteq> 255"
    using h by (auto simp: py_ord_def)
  with o h show ?thesis
    unfolding eq by (simp add: py_chr_def h_def)
qed

lemma encode_one_header:
  assumes "encode_one c x = Inr s"
  shows "s \<noteq> [] \<and> hd s \<noteq> 255"
proof -
  from assms obtain d ed where d: "writeExtendedFieldValue (number x - c) = Inr (d, ed)"
    by (auto simp: encode_one_def split: sum.splits)
  from assms d obtain l el where l: "writeExtendedFieldValue (option_length x) = Inr (l, el)"
    by (auto simp: encode_one_def split: sum.splits)
  from writeExtendedFieldValue_nibble [OF d] writeExtendedFieldValue_nibble [OF l]
  obtain hdr where hdr: "py_chr (push_bit 4 (d AND 15) + (l AND 15)) = Inr hdr" "hdr \<noteq> 255"
    using option_header_byte [of d l] by blast
  from assms d l hdr show ?thesis
    by (auto simp: encode_one_def split: sum.splits)
qed

lemma encode_loop_header:
  assumes "encode_loop c xs = Inr s"
  shows "s = [] \<or> hd s \<noteq> 255"
proof (cases xs)
  case Nil
  with assms show ?thesis by simp
next
  case (Cons x rest)
  with assms obtain s1 s2 where "encode_one c x = Inr s1" and "s = s1 @ s2"
    by (auto split: sum.splits)
  with encode_one_header [of c x s1] show ?thesis by auto
qed

lemma Options_encode_header:
  assumes "Options_encode os = Inr s"
  shows "s = [] \<or> hd s \<noteq> 255"
  using assms encode_loop_header
  by (auto simp: Options_encode_def split: sum.splits)


text \<open>
  C5, as the claim states it, fails: a message with empty payload and message ID
  \<open>0xFFFF\<close> encodes to four bytes, two of which are \<open>0xFF\<close>. The same byte value can
  occur in the code, the token, an extension byte or an option value.
\<close>

theorem Message_encode_0xFF_counterexample:
  "payload (Message_init (Some 0) (Some 65535) 0 [] []) = []
   \<and> Message_encode (Message_init (Some 0) (Some 65535) 0 [] []) = Inr [0x40, 0x00, 0xFF, 0xFF]"
  by (simp add: Message_init_def Message_encode_def py_chr_def pack_BH_def pack_B_def
      pack_H_def Options_encode_def optionList_def Options_init_def)

text \<open>
  C5 (amended): for every message that encodes, the result is the four header bytes, the
  token and the encoded options, which never begin with \<open>0xFF\<close>; with an empty payload
  nothing follows them (no marker is emitted), and with a non-empty payload exactly one
  marker byte \<open>0xFF\<close> follows them, placed immediately before the payload bytes, which end
  the string. Bytes of value \<open>0xFF\<close> inside the header, token, options or payload are
  not excluded.
\<close>

theorem Message_encode_payload_marker:
  assumes "Message_encode self = Inr rawdata"
  shows "\<exists>hdr optdata. length hdr = 4
           \<and> Options_encode (opt self) = Inr optdata
           \<and> (optdata = [] \<or> hd optdata \<noteq> 0xFF)
           \<and> (payload self = [] \<longrightarrow> rawdata = hdr @ token self @ optdata)
           \<and> (payload self \<noteq> [] \<longrightarrow>
                 rawdata = hdr @ token self @ optdata @ [0xFF] @ payload self)"
proof -
  from assms obtain mtype' mid' where m: "mtype self = Some mtype'" "mid self = Some mid'"
    by (auto simp: Message_encode_def split: option.splits)
  from assms m obtain b0 where b0:
    "py_chr (push_bit 6 (version self) + push_bit 4 (mtype' AND 3)
             + (int (length (token self)) AND 15)) = Inr b0"
    by (auto simp: Message_encode_def split: sum.splits)
  from assms m b0 obtain s where s: "pack_BH (code self) mid' = Inr s"
    by (auto simp: Message_encode_def split: sum.splits)
  from assms m b0 s obtain optdata where o: "Options_encode (opt self) = Inr optdata"
    by (auto simp: Message_encode_def split: sum.splits)
  have len: "length (b0 # s) = 4"
    using s by (auto simp: pack_BH_def pack_B_def pack_H_def split: if_splits)
  have raw: "rawdata = (b0 # s) @ token self @ optdata
               @ (if length (payload self) > 0 then 0xFF # payload self else [])"
    using assms m b0 s o by (simp add: Message_encode_def)
  from o have "optdata = [] \<or> hd optdata \<noteq> 0xFF"
    by (rule Options_encode_header)
  with len o raw show ?thesis
    by (intro exI [of _ "b0 # s"] exI [of _ optdata]) simp
qed

theorem Message_encode_payload_marker_witness:
  "\<exists>hdr optdata. length hdr = 4
     \<and> Options_encode Options_init = Inr optdata
     \<and> (optdata = [] \<or> hd optdata \<noteq> 0xFF)
     \<and> [0x40, 0x45, 0x00, 0x01, 0xFF, 0x41] = hdr @ [] @ optdata @ [0xFF] @ [0x41]"
proof -
  have e: "Message_encode (Message_init (Some 0) (Some 1) 69 [0x41] [])
           = Inr [0x40, 0x45, 0x00, 0x01, 0xFF, 0x41]"
    by (simp add: Message_init_def Message_encode_def py_chr_def pack_BH_def pack_B_def
        pack_H_def Options_encode_def optionList_def Options_init_def)
  from Message_encode_payload_marker [OF e] show ?thesis
    by (simp add: Message_init_def)
qed

section \<open>The order of the encoded options\<close>

lemma fst_set_addOption: "fst ` set (addOption os x) = insert (number x) (fst ` set os)"
  by (induction os x rule: addOption.induct) auto

lemma options_wf_init: "options_wf Options_init"
  by (simp add: options_wf_def Options_init_def)

lemma options_wf_addOption:
  assumes "options_wf os"
  shows "options_wf (addOption os x)"
  using assms
proof (induction os x rule: addOption.induct)
  case (1 x)
  then show ?case by (simp add: options_wf_def)
next
  case (2 k vs rest x)
  from "2.prems" have rest: "options_wf rest"
    by (simp add: options_wf_def)
  show ?case
  proof (cases "k = number x")
    case True
    with "2.prems" show ?thesis by (auto simp: options_wf_def)
  next
    case False
    with "2.IH" rest have "options_wf (addOption rest x)" by simp
    moreover have "k \<notin> fst ` set (addOption rest x)"
      using False "2.prems" by (auto simp: fst_set_addOption options_wf_def)
    ultimately show ?thesis
      using False "2.prems" by (auto simp: options_wf_def)
  qed
qed

lemma options_wf_deleteOption: "options_wf os \<Longrightarrow> options_wf (deleteOption os n)"
  by (auto simp: options_wf_def deleteOption_def distinct_map_filter)

lemma options_wf_foldl: "options_wf os \<Longrightarrow> options_wf (foldl addOption os xs)"
  by (induction xs arbitrary: os) (simp_all add: options_wf_addOption)

lemma stored_addOption:
  "stored (addOption os x) n = stored os n @ (if n = number x then [x] else [])"
  by (simp add: stored_def getOption_addOption)

lemma stored_foldl:
  "stored (foldl addOption os xs) n = stored os n @ filter (\<lambda>x. number x = n) xs"
  by (induction xs arbitrary: os) (auto simp: stored_addOption)

lemma stored_init: "stored Options_init n = []"
  by (simp add: stored_def getOption_init)


lemma sorted_concat_groups:
  assumes "sorted (map f gs)" and "\<forall>g \<in> set gs. \<forall>x \<in> set g. number x = f g"
  shows "sorted (map number (concat gs))"
  using assms
proof (induction gs)
  case Nil
  show ?case by simp
next
  case (Cons g gs)
  have const: "map number g = replicate (length g) (f g)"
    using Cons.prems(2) by (simp add: map_replicate_const [symmetric] cong: map_cong)
  have "sorted (map number g)"
    unfolding const by (simp add: sorted_replicate)
  moreover have "sorted (map number (concat gs))"
    using Cons by simp
  moreover have "number x \<le> number y" if "x \<in> set g" and "y \<in> set (concat gs)" for x y
  proof -
    from that(2) obtain g' where g': "g' \<in> set gs" "y \<in> set g'" by auto
    with Cons.prems have "f g \<le> f g'" and "number y = f g'" by auto
    moreover from that(1) Cons.prems(2) have "number x = f g" by simp
    ultimately show ?thesis by simp
  qed
  ultimately show ?case
    by (auto simp: sorted_append)
qed

lemma filter_concat_groups:
  assumes "\<forall>g \<in> set gs. \<forall>x \<in> set g. number x = f g"
  shows "filter (\<lambda>x. number x = n) (concat gs) = concat (filter (\<lambda>g. f g = n) gs)"
  using assms
proof (induction gs)
  case Nil
  show ?case by simp
next
  case (Cons g gs)
  have "filter (\<lambda>x. number x = n) g = (if f g = n then g else [])"
    using Cons.prems by (auto simp: filter_empty_conv filter_id_conv)
  with Cons show ?case by simp
qed

lemma filter_key_distinct:
  assumes "distinct (map fst os)"
  shows "map snd (filter (\<lambda>kv. fst kv = n) os)
         = (case map_of os n of None \<Rightarrow> [] | Some vs \<Rightarrow> [vs])"
  using assms
proof (induction os)
  case Nil
  show ?case by simp
next
  case (Cons kv os)
  show ?case
  proof (cases "fst kv = n")
    case True
    with Cons.prems have "n \<notin> fst ` set os" by auto
    then have "filter (\<lambda>kv. fst kv = n) os = []"
      by (auto simp: filter_empty_conv)
    with True show ?thesis by (cases kv) simp
  next
    case False
    with Cons show ?thesis by (cases kv) simp
  qed
qed

lemma optionList_wf:
  assumes "options_wf os"
  shows "\<exists>option_list. optionList os = Inr option_list
           \<and> sorted (map number option_list)
           \<and> (\<forall>n. filter (\<lambda>x. number x = n) option_list = stored os n)"
proof -
  define f where "f = (\<lambda>g :: coap_option list. number (hd g))"
  define gs where "gs = sort_key f (map snd os)"
  have key: "f (snd kv) = fst kv" if "kv \<in> set os" for kv
    using assms that by (auto simp: options_wf_def f_def)
  have grp: "\<forall>g \<in> set gs. \<forall>x \<in> set g. number x = f g"
    using assms key by (auto simp: gs_def options_wf_def)
  have nonempty: "[] \<notin> set (map snd os)"
    using assms by (auto simp: options_wf_def)
  then have ol: "optionList os = Inr (concat gs)"
    by (simp add: optionList_def gs_def f_def)
  have "sorted (map f gs)"
    by (simp add: gs_def)
  then have srt: "sorted (map number (concat gs))"
    using grp by (rule sorted_concat_groups)
  have flt: "filter (\<lambda>x. number x = n) (concat gs) = stored os n" for n
  proof -
    have "filter (\<lambda>x. number x = n) (concat gs) = concat (filter (\<lambda>g. f g = n) gs)"
      using grp by (rule filter_concat_groups)
    also have "\<dots> = concat (filter (\<lambda>g. f g = n) (map snd os))"
      by (simp only: gs_def sort_key_stable)
    also have "\<dots> = concat (map snd (filter (\<lambda>kv. f (snd kv) = n) os))"
      by (simp add: filter_map comp_def)
    also have "filter (\<lambda>kv. f (snd kv) = n) os = filter (\<lambda>kv. fst kv = n) os"
      using key by (intro filter_cong) auto
    also have "concat (map snd (filter (\<lambda>kv. fst kv = n) os)) = stored os n"
      using assms
      by (simp add: filter_key_distinct options_wf_def stored_def getOption_def
          split: option.splits)
    finally show ?thesis .
  qed
  from ol srt flt show ?thesis by blast
qed

lemma option_header_value:
  assumes "py_chr (push_bit 4 (dn AND 15) + (ln AND 15)) = Inr hdr"
    and "0 \<le> dn \<and> dn \<le> 14" and "0 \<le> ln \<and> ln \<le> 14"
  shows "hdr = word_of_int (16 * dn + ln)"
proof -
  have "push_bit 4 (dn AND 15) + (ln AND 15) = 16 * dn + ln"
    using assms(2,3) by (simp add: nibble_and_15 push_bit_eq_mult)
  with assms(1) show ?thesis
    by (simp add: py_chr_def split: if_splits)
qed

lemma encode_one_emitted:
  assumes "encode_one prev x = Inr piece"
  shows "0 \<le> number x - prev \<and> emitted_option (number x - prev) x piece"
proof -
  from assms obtain dn ed where d: "writeExtendedFieldValue (number x - prev) = Inr (dn, ed)"
    by (auto simp: encode_one_def split: sum.splits)
  from assms d obtain ln el where l: "writeExtendedFieldValue (option_length x) = Inr (ln, el)"
    by (auto simp: encode_one_def split: sum.splits)
  from assms d l obtain hdr where hdr: "py_chr (push_bit 4 (dn AND 15) + (ln AND 15)) = Inr hdr"
    by (auto simp: encode_one_def split: sum.splits)
  from assms d l hdr obtain v where v: "option_encode x = Inr v"
    by (auto simp: encode_one_def split: sum.splits)
  from assms d l hdr v have p: "piece = hdr # ed @ el @ v"
    by (simp add: encode_one_def)
  have "hdr = word_of_int (16 * dn + ln)"
    using hdr writeExtendedFieldValue_nibble [OF d] writeExtendedFieldValue_nibble [OF l]
    by (rule option_header_value)
  with d l v p have "emitted_option (number x - prev) x piece"
    unfolding emitted_option_def by blast
  moreover from d have "0 \<le> number x - prev"
    by (simp add: writeExtendedFieldValue_def split: if_splits)
  ultimately show ?thesis by simp
qed

lemma encode_loop_emitted:
  assumes "encode_loop prev xs = Inr s"
  shows "\<exists>pieces. s = concat pieces \<and> emitted_options prev xs pieces"
  using assms
proof (induction xs arbitrary: prev s)
  case Nil
  then show ?case by simp
next
  case (Cons x xs)
  from Cons.prems obtain s1 s2 where s1: "encode_one prev x = Inr s1"
    and s2: "encode_loop (number x) xs = Inr s2" and s: "s = s1 @ s2"
    by (auto split: sum.splits)
  from Cons.IH [OF s2] obtain rest where rest: "s2 = concat rest"
    "emitted_options (number x) xs rest"
    by blast
  from encode_one_emitted [OF s1] rest s show ?case
    by (intro exI [of _ "s1 # rest"]) simp
qed

lemma encode_one_succeeds:
  assumes "0 \<le> number x - prev" and "number x - prev < 65804"
    and "\<exists>ln el. writeExtendedFieldValue (option_length x) = Inr (ln, el)"
    and "\<exists>v. option_encode x = Inr v"
  shows "\<exists>piece. encode_one prev x = Inr piece"
proof -
  from write_read_field [OF assms(1,2)] obtain dn ed
    where d: "writeExtendedFieldValue (number x - prev) = Inr (dn, ed)"
    by blast
  from assms(3) obtain ln el where l: "writeExtendedFieldValue (option_length x) = Inr (ln, el)"
    by blast
  from assms(4) obtain v where v: "option_encode x = Inr v"
    by blast
  from writeExtendedFieldValue_nibble [OF d] writeExtendedFieldValue_nibble [OF l]
  obtain hdr where "py_chr (push_bit 4 (dn AND 15) + (ln AND 15)) = Inr hdr"
    using option_header_byte [of dn ln] by blast
  with d l v show ?thesis
    by (simp add: encode_one_def)
qed

lemma encode_loop_succeeds:
  assumes "0 \<le> prev" and "sorted (map number xs)"
    and "\<forall>x \<in> set xs. prev \<le> number x \<and> number x < 65804
           \<and> (\<exists>ln el. writeExtendedFieldValue (option_length x) = Inr (ln, el))
           \<and> (\<exists>v. option_encode x = Inr v)"
  shows "\<exists>s. encode_loop prev xs = Inr s"
  using assms
proof (induction xs arbitrary: prev)
  case Nil
  show ?case by simp
next
  case (Cons x xs)
  from Cons.prems have x: "prev \<le> number x" "number x < 65804" by simp_all
  with Cons.prems(1) have "0 \<le> number x - prev" "number x - prev < 65804" by simp_all
  then obtain piece where piece: "encode_one prev x = Inr piece"
    using Cons.prems(3) encode_one_succeeds [of x prev] by auto
  have "0 \<le> number x" using x Cons.prems(1) by simp
  moreover have "sorted (map number xs)" using Cons.prems(2) by simp
  moreover have "\<forall>y \<in> set xs. number x \<le> number y \<and> number y < 65804
           \<and> (\<exists>ln el. writeExtendedFieldValue (option_length y) = Inr (ln, el))
           \<and> (\<exists>v. option_encode y = Inr v)"
    using Cons.prems(2,3) by auto
  ultimately obtain s where "encode_loop (number x) xs = Inr s"
    using Cons.IH by blast
  with piece show ?case by simp
qed

lemma mset_eq_by_number:
  assumes "\<And>n. filter (\<lambda>x. number x = n) ys = filter (\<lambda>x. number x = n) xs"
  shows "mset ys = mset xs"
proof (rule multiset_eqI)
  fix x
  have "count (mset ys) x = count (mset (filter (\<lambda>y. number y = number x) ys)) x"
    by simp
  also have "\<dots> = count (mset (filter (\<lambda>y. number y = number x) xs)) x"
    by (simp only: assms)
  also have "\<dots> = count (mset xs) x"
    by simp
  finally show "count (mset ys) x = count (mset xs) x" .
qed

text \<open>
  C7: for options added to an empty container in any order, \<open>optionList\<close> holds exactly
  the options added (as a multiset), in non-decreasing order of option number, those of
  equal number in the order in which they were added. Whenever \<open>Options.encode\<close> returns,
  its bytes are the options of that list emitted one after the other in that order, each
  at the delta \<open>number - previous emitted number\<close> (0 before the first), and every such
  delta is non-negative. And it does return whenever each option has a number in
  \<open>0..65803\<close> and a length and a value that encode: after sorting no delta can make it
  fail.
\<close>

theorem Options_encode_order:
  "\<exists>option_list.
      optionList (foldl addOption Options_init xs) = Inr option_list
      \<and> mset option_list = mset xs
      \<and> sorted (map number option_list)
      \<and> (\<forall>n. filter (\<lambda>x. number x = n) option_list = filter (\<lambda>x. number x = n) xs)
      \<and> (\<forall>s. Options_encode (foldl addOption Options_init xs) = Inr s \<longrightarrow>
            (\<exists>pieces. s = concat pieces \<and> emitted_options 0 option_list pieces))
      \<and> ((\<forall>x \<in> set xs. 0 \<le> number x \<and> number x < 65804
              \<and> (\<exists>ln el. writeExtendedFieldValue (option_length x) = Inr (ln, el))
              \<and> (\<exists>v. option_encode x = Inr v)) \<longrightarrow>
            (\<exists>s. Options_encode (foldl addOption Options_init xs) = Inr s))"
proof -
  define os where "os = foldl addOption Options_init xs"
  have "options_wf os"
    unfolding os_def by (intro options_wf_foldl options_wf_init)
  then obtain option_list where ol: "optionList os = Inr option_list"
    and srt: "sorted (map number option_list)"
    and flt: "\<And>n. filter (\<lambda>x. number x = n) option_list = stored os n"
    using optionList_wf by blast
  have grp: "filter (\<lambda>x. number x = n) option_list = filter (\<lambda>x. number x = n) xs" for n
    by (simp add: flt os_def stored_foldl stored_init)
  have ms: "mset option_list = mset xs"
    using grp by (rule mset_eq_by_number)
  then have st: "set option_list = set xs"
    by (rule mset_eq_setD)
  have enc: "Options_encode os = encode_loop 0 option_list"
    by (simp add: Options_encode_def ol)
  have emit: "\<exists>pieces. s = concat pieces \<and> emitted_options 0 option_list pieces"
    if "Options_encode os = Inr s" for s
    using that unfolding enc by (rule encode_loop_emitted)
  have total: "\<exists>s. Options_encode os = Inr s"
    if "\<forall>x \<in> set xs. 0 \<le> number x \<and> number x < 65804
              \<and> (\<exists>ln el. writeExtendedFieldValue (option_length x) = Inr (ln, el))
              \<and> (\<exists>v. option_encode x = Inr v)"
    unfolding enc using srt that st by (intro encode_loop_succeeds) simp_all
  from ol ms srt grp emit total show ?thesis
    unfolding os_def by blast
qed

theorem Options_encode_order_witness:
  "optionList (foldl addOption Options_init
       [StringOption 11 [97], UintOption 6 5, StringOption 11 [98]])
     = Inr [UintOption 6 5, StringOption 11 [97], StringOption 11 [98]]
   \<and> Options_encode (foldl addOption Options_init
       [StringOption 11 [97], UintOption 6 5, StringOption 11 [98]])
     = Inr [0x61, 0x05, 0x51, 0x61, 0x01, 0x62]
   \<and> (\<exists>pieces. [0x61, 0x05, 0x51, 0x61, 0x01, 0x62] = concat pieces
         \<and> emitted_options 0 [UintOption 6 5, StringOption 11 [97], StringOption 11 [98]] pieces)"
proof -
  define xs where "xs = [StringOption 11 [97], UintOption 6 5, StringOption 11 [98]]"
  have ol: "optionList (foldl addOption Options_init xs)
            = Inr [UintOption 6 5, StringOption 11 [97], StringOption 11 [98]]"
    by (simp add: xs_def Options_init_def optionList_def)
  have len5: "UintOption_length 5 = 1"
    by (simp add: UintOption_length_def bit_length_def bit_length_nat.simps)
  have enc5: "UintOption_encode 5 = Inr [5]"
    by (simp add: UintOption_encode_def pack_L_def lstrip0_def)
  have hyp: "\<forall>x \<in> set xs. 0 \<le> number x \<and> number x < 65804
              \<and> (\<exists>ln el. writeExtendedFieldValue (option_length x) = Inr (ln, el))
              \<and> (\<exists>v. option_encode x = Inr v)"
    by (simp add: xs_def len5 enc5 writeExtendedFieldValue_def)
  from Options_encode_order [of xs] obtain option_list
    where l: "optionList (foldl addOption Options_init xs) = Inr option_list"
      and emit: "\<And>s. Options_encode (foldl addOption Options_init xs) = Inr s \<Longrightarrow>
            \<exists>pieces. s = concat pieces \<and> emitted_options 0 option_list pieces"
      and total: "(\<forall>x \<in> set xs. 0 \<le> number x \<and> number x < 65804
              \<and> (\<exists>ln el. writeExtendedFieldValue (option_length x) = Inr (ln, el))
              \<and> (\<exists>v. option_encode x = Inr v)) \<longrightarrow>
            (\<exists>s. Options_encode (foldl addOption Options_init xs) = Inr s)"
    by blast
  from l ol have ole: "option_list = [UintOption 6 5, StringOption 11 [97], StringOption 11 [98]]"
    by simp
  from total hyp obtain s where s: "Options_encode (foldl addOption Options_init xs) = Inr s"
    by blast
  have "Options_encode (foldl addOption Options_init xs)
        = Inr [0x61, 0x05, 0x51, 0x61, 0x01, 0x62]"
    by (simp add: Options_encode_def ol encode_one_def len5 enc5 writeExtendedFieldValue_def
        py_chr_def)
  with s have enc: "Options_encode (foldl addOption Options_init xs)
        = Inr [0x61, 0x05, 0x51, 0x61, 0x01, 0x62]"
    by simp
  from emit [OF enc] ole
  have "\<exists>pieces. [0x61, 0x05, 0x51, 0x61, 0x01, 0x62] = concat pieces
         \<and> emitted_options 0 [UintOption 6 5, StringOption 11 [97], StringOption 11 [98]] pieces"
    by simp
  with ol enc show ?thesis
    unfolding xs_def by blast
qed

section \<open>Encoding and decoding a message\<close>

text \<open>
  C1 fails on the code. A request with Block2 \<open>(0, False, 0)\<close> and payload \<open>A\<close> encodes
  its Block2 option with declared length 1 (\<open>BlockOption._length\<close>) and no value byte
  (\<open>BlockOption.encode\<close> strips the zero). Decoding the result takes the payload marker
  \<open>0xFF\<close> for the value of Block2 and the payload byte for the header of a further option:
  the decoded message has Block2 \<open>(15, True, 7)\<close>, a Block1 option and no payload.
\<close>

theorem Message_roundtrip_block2_zero:
  "Message_encode
     ((Message_init (Some 0) (Some 1) 1 [0x41] [])\<lparr>opt := setBlock2 Options_init (0, False, 0)\<rparr>)
   = Inr [0x40, 0x01, 0x00, 0x01, 0xD1, 0x0A, 0xFF, 0x41]
   \<and> Message_decode [0x40, 0x01, 0x00, 0x01, 0xD1, 0x0A, 0xFF, 0x41] None None
   = Inr ((Message_init (Some 0) (Some 1) 1 [] [])
            \<lparr>opt := [(23, [BlockOption 23 15 True 7]), (27, [BlockOption 27 0 False 0])]\<rparr>)"
proof (rule conjI)
  have ol: "optionList (setBlock2 Options_init (0, False, 0)) = Inr [BlockOption 23 0 False 0]"
    by (simp add: setBlock2_def Options_init_def deleteOption_def optionList_def BLOCK2_def)
  have len: "BlockOption_length 0 False 0 = 1"
    by (simp add: BlockOption_length_def bit_length_def bit_length_nat.simps)
  have val: "BlockOption_encode 0 False 0 = Inr []"
    by (simp add: BlockOption_encode_def BlockOption_as_integer_def pack_L_def lstrip0_def)
  have one: "encode_one 0 (BlockOption 23 0 False 0) = Inr [0xD1, 0x0A]"
    by (simp add: encode_one_def len val writeExtendedFieldValue_def pack_B_def py_chr_def)
  have opts: "Options_encode (setBlock2 Options_init (0, False, 0)) = Inr [0xD1, 0x0A]"
    by (simp add: Options_encode_def ol one)
  show "Message_encode
     ((Message_init (Some 0) (Some 1) 1 [0x41] [])\<lparr>opt := setBlock2 Options_init (0, False, 0)\<rparr>)
   = Inr [0x40, 0x01, 0x00, 0x01, 0xD1, 0x0A, 0xFF, 0x41]"
    by (simp add: Message_encode_def Message_init_def opts py_chr_def pack_BH_def pack_B_def
        pack_H_def)
next
  have dec: "Options_decode [0xD1, 0x0A, 0xFF, 0x41]
             = Inr ([(23, [BlockOption 23 15 True 7]), (27, [BlockOption 27 0 False 0])], [])"
    by (simp add: Options_decode_def Options_init_def py_ord_def readExtendedFieldValue_def
        decode_option_def option_formats_def BlockOption_decode_def)
  show "Message_decode [0x40, 0x01, 0x00, 0x01, 0xD1, 0x0A, 0xFF, 0x41] None None
   = Inr ((Message_init (Some 0) (Some 1) 1 [] [])
            \<lparr>opt := [(23, [BlockOption 23 15 True 7]), (27, [BlockOption 27 0 False 0])]\<rparr>)"
    by (simp add: Message_decode_def Message_init_def py_ord_def dec)
qed

end
